theory Spec2Isabelle
  imports Main
begin

section \<open>JavaScript strings\<close>

text \<open>
  A JavaScript string is modelled as a \<open>string\<close> (a list of \<open>char\<close>): one \<open>char\<close> per
  code unit, restricted to the code units U+0000 .. U+00FF. Every character that the
  regular expressions and literals of the sources name is ASCII.
\<close>

text \<open>\<open>String.prototype.startsWith\<close>: \<open>startsWith s p\<close> is \<open>s.startsWith(p)\<close>.\<close>

fun startsWith :: "string \<Rightarrow> string \<Rightarrow> bool" where
  "startsWith s [] = True"
| "startsWith [] (p # ps) = False"
| "startsWith (c # cs) (p # ps) = (c = p \<and> startsWith cs ps)"

text \<open>
  \<open>String.prototype.includes\<close>: \<open>includesStr s p\<close> is \<open>s.includes(p)\<close> (the name
  \<open>includes\<close> is reserved in Isabelle).
\<close>

fun includesStr :: "string \<Rightarrow> string \<Rightarrow> bool" where
  "includesStr [] p = (p = [])"
| "includesStr (c # cs) p = (startsWith (c # cs) p \<or> includesStr cs p)"

text \<open>The character classes \<open>\w\<close>, \<open>\d\<close> and \<open>\s\<close> of ECMAScript (without the \<open>u\<close> flag).\<close>

definition isUpper :: "char \<Rightarrow> bool" where
  "isUpper c = (65 \<le> (of_char c :: nat) \<and> (of_char c :: nat) \<le> 90)"

definition isLower :: "char \<Rightarrow> bool" where
  "isLower c = (97 \<le> (of_char c :: nat) \<and> (of_char c :: nat) \<le> 122)"

definition isDigit :: "char \<Rightarrow> bool" where
  "isDigit c = (48 \<le> (of_char c :: nat) \<and> (of_char c :: nat) \<le> 57)"

definition isWordChar :: "char \<Rightarrow> bool" where
  "isWordChar c = (isLower c \<or> isUpper c \<or> isDigit c \<or> c = CHR ''_'')"

definition isSpace :: "char \<Rightarrow> bool" where
  "isSpace c = (c = CHR '' '' \<or> c = CHR 0x09 \<or> c = CHR 0x0A \<or> c = CHR 0x0B
                \<or> c = CHR 0x0C \<or> c = CHR 0x0D \<or> c = CHR 0xA0)"

text \<open>\<open>String.prototype.toUpperCase\<close> on ASCII letters.\<close>

definition upperChar :: "char \<Rightarrow> char" where
  "upperChar c = (if isLower c then char_of (of_char c - (32::nat)) else c)"

definition toUpperCase :: "string \<Rightarrow> string" where
  "toUpperCase s = map upperChar s"

text \<open>\<open>String.prototype.trim\<close>.\<close>

definition trim :: "string \<Rightarrow> string" where
  "trim s = rev (dropWhile isSpace (rev (dropWhile isSpace s)))"

section \<open>Regular expressions\<close>

text \<open>
  The regular expressions of the sources are sequences of literals, repetitions of one
  character class (greedy or lazy), word boundaries, capture groups and one
  backreference. A pattern is the list of its items; \<open>Mark\<close> stands for an opening or
  closing parenthesis of a capture group and records the position of the matcher there.
  Group \<open>g\<close> is delimited by the marks \<open>2g - 2\<close> and \<open>2g - 1\<close> (the groups of the
  sources are not nested).

  The matcher is the backtracking matcher of ECMAScript: a greedy repetition tries the
  longest run first, a lazy one the shortest, and the first alternative whose
  continuation succeeds is the match. A position is the suffix of the subject that is
  still to be read, together with the character just before it (for \<open>\b\<close>).
\<close>

datatype rx =
    Lit string
  | Rep "char \<Rightarrow> bool" nat "nat option"
  | RepLazy "char \<Rightarrow> bool" nat "nat option"
  | WordB
  | Mark
  | BackRef nat

type_synonym marks = "string list"
type_synonym mres = "(string \<times> marks) option"
type_synonym cont = "char option \<Rightarrow> marks \<Rightarrow> string \<Rightarrow> mres"

fun first_some :: "(nat \<Rightarrow> mres) \<Rightarrow> nat list \<Rightarrow> mres" where
  "first_some f [] = None"
| "first_some f (n # ns) = (case f n of Some r \<Rightarrow> Some r | None \<Rightarrow> first_some f ns)"

text \<open>The longest run of characters of the class at the head of \<open>s\<close>, capped by \<open>hi\<close>.\<close>

definition run :: "(char \<Rightarrow> bool) \<Rightarrow> nat option \<Rightarrow> string \<Rightarrow> nat" where
  "run c hi s = (let m = length (takeWhile c s)
                 in case hi of None \<Rightarrow> m | Some h \<Rightarrow> min h m)"

text \<open>The character before the position reached after reading \<open>n\<close> characters of \<open>s\<close>.\<close>

definition prevAfter :: "char option \<Rightarrow> string \<Rightarrow> nat \<Rightarrow> char option" where
  "prevAfter prev s n = (if n = 0 \<or> length s < n then prev else Some (s ! (n - 1)))"

text \<open>The text captured by group \<open>g\<close>; a group that has not taken part is empty.\<close>

definition group :: "nat \<Rightarrow> marks \<Rightarrow> string" where
  "group g ms = (if 0 < g \<and> 2 * g - 1 < length ms
                 then take (length (ms ! (2 * g - 2)) - length (ms ! (2 * g - 1))) (ms ! (2 * g - 2))
                 else [])"

definition isWordOpt :: "char option \<Rightarrow> bool" where
  "isWordOpt p = (case p of None \<Rightarrow> False | Some c \<Rightarrow> isWordChar c)"

definition headOpt :: "string \<Rightarrow> char option" where
  "headOpt s = (case s of [] \<Rightarrow> None | c # _ \<Rightarrow> Some c)"

fun step :: "rx \<Rightarrow> cont \<Rightarrow> cont" where
  "step (Lit l) k prev ms s =
     (if startsWith s l then k (prevAfter prev s (length l)) ms (drop (length l) s) else None)"
| "step (Rep c lo hi) k prev ms s =
     first_some (\<lambda>n. k (prevAfter prev s n) ms (drop n s)) (rev [lo ..< Suc (run c hi s)])"
| "step (RepLazy c lo hi) k prev ms s =
     first_some (\<lambda>n. k (prevAfter prev s n) ms (drop n s)) [lo ..< Suc (run c hi s)]"
| "step WordB k prev ms s =
     (if isWordOpt prev \<noteq> isWordOpt (headOpt s) then k prev ms s else None)"
| "step Mark k prev ms s = k prev (ms @ [s]) s"
| "step (BackRef g) k prev ms s =
     (if startsWith s (group g ms)
      then k (prevAfter prev s (length (group g ms))) ms (drop (length (group g ms)) s)
      else None)"

text \<open>
  \<open>m_at p prev ms s\<close>: the match of pattern \<open>p\<close> anchored at the head of \<open>s\<close>, as the
  rest of the subject after the match and the marks, or \<open>None\<close>.
\<close>

primrec m_at :: "rx list \<Rightarrow> cont" where
  "m_at [] = (\<lambda>prev ms s. Some (s, ms))"
| "m_at (r # rs) = step r (m_at rs)"

text \<open>
  \<open>String.prototype.replace\<close> with a global regular expression and a replacement
  function of the capture groups: scan from the left; at a match emit the replacement
  and go on after the match (one character further after an empty match); elsewhere
  copy the character.
\<close>

function replace :: "rx list \<Rightarrow> (marks \<Rightarrow> string) \<Rightarrow> char option \<Rightarrow> string \<Rightarrow> string" where
  "replace p f prev s =
     (case m_at p prev [] s of
        None \<Rightarrow> (case s of [] \<Rightarrow> [] | c # cs \<Rightarrow> c # replace p f (Some c) cs)
      | Some (r, ms) \<Rightarrow>
          if length r < length s
          then f ms @ replace p f (prevAfter prev s (length s - length r)) r
          else (case s of [] \<Rightarrow> f ms | c # cs \<Rightarrow> f ms @ c # replace p f (Some c) cs))"
  by pat_completeness auto
termination
  by (relation "measure (\<lambda>(p, f, prev, s). length s)") auto

text \<open>
  \<open>String.prototype.match\<close> with a global regular expression: the matched substrings
  from left to right (\<open>[]\<close> where JavaScript returns \<open>null\<close>).
\<close>

function matchAll :: "rx list \<Rightarrow> char option \<Rightarrow> string \<Rightarrow> string list" where
  "matchAll p prev s =
     (case m_at p prev [] s of
        None \<Rightarrow> (case s of [] \<Rightarrow> [] | c # cs \<Rightarrow> matchAll p (Some c) cs)
      | Some (r, ms) \<Rightarrow>
          if length r < length s
          then take (length s - length r) s
                 # matchAll p (prevAfter prev s (length s - length r)) r
          else (case s of [] \<Rightarrow> [[]] | c # cs \<Rightarrow> [] # matchAll p (Some c) cs))"
  by pat_completeness auto
termination
  by (relation "measure (\<lambda>(p, prev, s). length s)") auto

text \<open>
  \<open>String.prototype.match\<close> with a regular expression without the \<open>g\<close> flag: the
  leftmost match, as the matched text and the marks.
\<close>

fun matchFirst :: "rx list \<Rightarrow> char option \<Rightarrow> string \<Rightarrow> (string \<times> marks) option" where
  "matchFirst p prev [] =
     (case m_at p prev [] [] of None \<Rightarrow> None | Some (r, ms) \<Rightarrow> Some ([], ms))"
| "matchFirst p prev (c # cs) =
     (case m_at p prev [] (c # cs) of
        None \<Rightarrow> matchFirst p (Some c) cs
      | Some (r, ms) \<Rightarrow> Some (take (length (c # cs) - length r) (c # cs), ms))"

section \<open>Scripts/redact-pii.ts\<close>

text \<open>\<open>PII_MARKER_PATTERN = /\[PII:(\w+)\](.*?)\[\/PII:\1\]/gs\<close>\<close>

definition PII_MARKER_PATTERN :: "rx list" where
  "PII_MARKER_PATTERN =
     [Lit ''[PII:'', Mark, Rep isWordChar 1 None, Mark, Lit '']'',
      Mark, RepLazy (\<lambda>c. True) 0 None, Mark,
      Lit ''[/PII:'', BackRef 1, Lit '']'']"

text \<open>The replacement function of \<open>redactPII\<close>: \<open>`[REDACTED:${type}]`\<close>.\<close>

definition redacted :: "marks \<Rightarrow> string" where
  "redacted ms = ''[REDACTED:'' @ group 1 ms @ '']''"

definition redactPII :: "string \<Rightarrow> string" where
  "redactPII content = replace PII_MARKER_PATTERN redacted None content"

declare replace.simps [simp del]
declare matchAll.simps [simp del]

text \<open>Notions for reasoning about \<open>redactPII\<close>: the scan of \<open>replace\<close> from any position.\<close>

abbreviation redactFrom :: "char option \<Rightarrow> string \<Rightarrow> string" where
  "redactFrom prev s \<equiv> replace PII_MARKER_PATTERN redacted prev s"

text \<open>The token that replaces a span of type \<open>T\<close>, and the tags that delimit a span.\<close>

definition token :: "string \<Rightarrow> string" where
  "token T = ''[REDACTED:'' @ T @ '']''"

definition openTag :: "string \<Rightarrow> string" where
  "openTag T = ''[PII:'' @ T @ '']''"

definition closeTag :: "string \<Rightarrow> string" where
  "closeTag T = ''[/PII:'' @ T @ '']''"

text \<open>A type name as \<open>(\w+)\<close> captures it.\<close>

definition isType :: "string \<Rightarrow> bool" where
  "isType T = (T \<noteq> [] \<and> (\<forall>c\<in>set T. isWordChar c))"

text \<open>\<open>hit s\<close>: a well-formed span starts at the head of \<open>s\<close>.\<close>

definition hit :: "string \<Rightarrow> bool" where
  "hit s = (\<exists>T mid r. isType T \<and> s = openTag T @ mid @ closeTag T @ r)"

section \<open>Hooks/PrePush.ts: the pre-transmission gate\<close>

definition isAlpha :: "char \<Rightarrow> bool" where
  "isAlpha c = (isLower c \<or> isUpper c)"

definition isAlnum :: "char \<Rightarrow> bool" where
  "isAlnum c = (isLower c \<or> isUpper c \<or> isDigit c)"

text \<open>The class \<open>[\s-]\<close>.\<close>

definition isSpaceOrDash :: "char \<Rightarrow> bool" where
  "isSpaceOrDash c = (isSpace c \<or> c = CHR ''-'')"

text \<open>\<open>String.prototype.endsWith\<close>, and \<open>toLowerCase\<close> on ASCII letters.\<close>

definition endsWith :: "string \<Rightarrow> string \<Rightarrow> bool" where
  "endsWith s suf = startsWith (rev s) (rev suf)"

definition lowerChar :: "char \<Rightarrow> char" where
  "lowerChar c = (if isUpper c then char_of (of_char c + (32::nat)) else c)"

text \<open>The decimal digits of a number, as template literals print it.\<close>

function showNat :: "nat \<Rightarrow> string" where
  "showNat n = (if n < 10 then [char_of (48 + n)]
                else showNat (n div 10) @ [char_of (48 + n mod 10)])"
  by pat_completeness auto
termination
  by (relation "measure (\<lambda>n. n)") auto

declare showNat.simps [simp del]

text \<open>
  \<open>PII_PATTERNS\<close>: the entries of the object in the order of \<open>Object.entries\<close> (insertion
  order). The \<open>i\<close> flag of the email pattern is written into its classes.
\<close>

record pii_pattern =
  ptype :: string
  regex :: "rx list"
  description :: string

definition emailPattern :: pii_pattern where
  "emailPattern = \<lparr>ptype = ''email'',
     regex = [Rep (\<lambda>c. isAlnum c \<or> c \<in> set ''._%+-'') 1 None, Lit ''@'',
              Rep (\<lambda>c. isAlnum c \<or> c \<in> set ''.-'') 1 None, Lit ''.'',
              Rep isAlpha 2 None],
     description = ''Email address''\<rparr>"

definition phonePattern :: pii_pattern where
  "phonePattern = \<lparr>ptype = ''phone'',
     regex = [Rep (\<lambda>c. c = CHR ''+'') 0 (Some 1), Rep isDigit 1 (Some 3),
              Rep isSpaceOrDash 0 (Some 1), Rep (\<lambda>c. c = CHR ''('') 0 (Some 1),
              Rep isDigit 1 (Some 4), Rep (\<lambda>c. c = CHR '')'') 0 (Some 1),
              Rep isSpaceOrDash 0 (Some 1), Rep isDigit 1 (Some 4),
              Rep isSpaceOrDash 0 (Some 1), Rep isDigit 1 (Some 9)],
     description = ''Phone number''\<rparr>"

definition apiKeyPattern :: pii_pattern where
  "apiKeyPattern = \<lparr>ptype = ''apiKey'',
     regex = [Lit ''sk-'', Rep isAlnum 20 None],
     description = ''OpenAI API key''\<rparr>"

definition awsKeyPattern :: pii_pattern where
  "awsKeyPattern = \<lparr>ptype = ''awsKey'',
     regex = [Lit ''AKIA'', Rep (\<lambda>c. isDigit c \<or> isUpper c) 16 (Some 16)],
     description = ''AWS access key''\<rparr>"

definition jwtPattern :: pii_pattern where
  "jwtPattern = \<lparr>ptype = ''jwt'',
     regex = [Lit ''eyJ'', Rep (\<lambda>c. isAlnum c \<or> c \<in> set ''_-'') 5 None, Lit ''.'',
              Lit ''eyJ'', Rep (\<lambda>c. isAlnum c \<or> c \<in> set ''_-'') 5 None, Lit ''.'',
              Rep (\<lambda>c. isAlnum c \<or> c \<in> set ''_-'') 5 None],
     description = ''JWT token''\<rparr>"

definition githubTokenPattern :: pii_pattern where
  "githubTokenPattern = \<lparr>ptype = ''githubToken'',
     regex = [Lit ''ghp_'', Rep isAlnum 36 (Some 36)],
     description = ''GitHub personal access token''\<rparr>"

definition creditCardPattern :: pii_pattern where
  "creditCardPattern = \<lparr>ptype = ''creditCard'',
     regex = [WordB, Rep isDigit 4 (Some 4), Rep isSpaceOrDash 0 (Some 1),
              Rep isDigit 4 (Some 4), Rep isSpaceOrDash 0 (Some 1),
              Rep isDigit 4 (Some 4), Rep isSpaceOrDash 0 (Some 1),
              Rep isDigit 4 (Some 4), WordB],
     description = ''Credit card number''\<rparr>"

definition ssnPattern :: pii_pattern where
  "ssnPattern = \<lparr>ptype = ''ssn'',
     regex = [WordB, Rep isDigit 3 (Some 3), Lit ''-'', Rep isDigit 2 (Some 2), Lit ''-'',
              Rep isDigit 4 (Some 4), WordB],
     description = ''Social security number''\<rparr>"

definition PII_PATTERNS :: "pii_pattern list" where
  "PII_PATTERNS = [emailPattern, phonePattern, apiKeyPattern, awsKeyPattern, jwtPattern,
                   githubTokenPattern, creditCardPattern, ssnPattern]"

text \<open>
  The finding that \<open>checkFileForPII\<close> pushes:
  \<open>`${pattern.description} (${matches.length} occurrence${matches.length > 1 ? 's' : ''})`\<close>
\<close>

definition finding :: "pii_pattern \<Rightarrow> nat \<Rightarrow> string" where
  "finding pat n =
     description pat @ '' ('' @ showNat n @ '' occurrence'' @ (if 1 < n then ''s'' else '''') @ '')''"

text \<open>
  \<open>isMarked\<close>: the content includes \<open>[PII:TYPE]\<close> or \<open>[REDACTED:TYPE]\<close> anywhere, where
  \<open>TYPE\<close> is \<open>type.toUpperCase()\<close> for the key \<open>type\<close> of the pattern.
\<close>

definition isMarked :: "string \<Rightarrow> string \<Rightarrow> bool" where
  "isMarked content type =
     (includesStr content (''[PII:'' @ toUpperCase type @ '']'')
      \<or> includesStr content (''[REDACTED:'' @ toUpperCase type @ '']''))"

text \<open>The loop of \<open>checkFileForPII\<close> over the patterns; the findings in the order pushed.\<close>

fun checkPatterns :: "pii_pattern list \<Rightarrow> string \<Rightarrow> string list" where
  "checkPatterns [] content = []"
| "checkPatterns (pat # pats) content =
     (let matches = matchAll (regex pat) None content
      in (if matches \<noteq> [] \<and> \<not> isMarked content (ptype pat)
          then [finding pat (length matches)] else [])
         @ checkPatterns pats content)"

text \<open>\<open>filePath.match(/\.(jpg|jpeg|png|gif|pdf|zip|tar|gz|exe|dll|so|dylib)$/i)\<close>\<close>

definition binaryExtensions :: "string list" where
  "binaryExtensions = [''jpg'', ''jpeg'', ''png'', ''gif'', ''pdf'', ''zip'', ''tar'', ''gz'',
                       ''exe'', ''dll'', ''so'', ''dylib'']"

definition isBinaryPath :: "string \<Rightarrow> bool" where
  "isBinaryPath filePath =
     (\<exists>e\<in>set binaryExtensions. endsWith (map lowerChar filePath) (''.'' @ e))"

record check_result =
  hasPII :: bool
  findings :: "string list"

text \<open>
  \<open>checkFileForPII filePath text\<close>, where \<open>text\<close> is what \<open>readFileSync(filePath, 'utf-8')\<close>
  returns, \<open>None\<close> when it throws (the \<open>catch\<close> returns no finding).
\<close>

definition checkFileForPII :: "string \<Rightarrow> string option \<Rightarrow> check_result" where
  "checkFileForPII filePath text =
     (if isBinaryPath filePath then \<lparr>hasPII = False, findings = []\<rparr>
      else if includesStr filePath ''.git/'' then \<lparr>hasPII = False, findings = []\<rparr>
      else (case text of
              None \<Rightarrow> \<lparr>hasPII = False, findings = []\<rparr>
            | Some content \<Rightarrow>
                (let fs = checkPatterns PII_PATTERNS content
                 in \<lparr>hasPII = (fs \<noteq> []), findings = fs\<rparr>)))"

text \<open>
  The directory tree under \<open>MEMORY_DIR\<close> as \<open>readdirSync\<close> and \<open>statSync\<close> show it: a
  file with its text (\<open>None\<close>: not readable as text), a directory with its entries
  (the flag: \<open>readdirSync\<close> succeeds), an entry on which \<open>statSync\<close> throws.
\<close>

datatype fsnode =
    FileNode string "string option"
  | DirNode string bool "fsnode list"
  | BrokenNode string

text \<open>\<open>join(dir, entry)\<close> for an entry name.\<close>

definition joinPath :: "string \<Rightarrow> string \<Rightarrow> string" where
  "joinPath dir entry = dir @ ''/'' @ entry"

text \<open>\<open>fullPath.match(/\.(safe|quick)\.md$/)\<close>\<close>

definition isDerived :: "string \<Rightarrow> bool" where
  "isDerived fullPath = (endsWith fullPath ''.safe.md'' \<or> endsWith fullPath ''.quick.md'')"

text \<open>
  \<open>walk\<close> of \<open>getFilesToCheck\<close>: the files pushed, each with the text a later
  \<open>readFileSync\<close> of it gives. An exception of \<open>statSync\<close> ends the loop of its
  directory (the \<open>try\<close> encloses the loop); an unreadable directory adds nothing.
\<close>

fun walk :: "string \<Rightarrow> fsnode list \<Rightarrow> (string \<times> string option) list" where
  "walk dir [] = []"
| "walk dir (FileNode entry text # es) =
     (if isDerived (joinPath dir entry) then [(joinPath dir entry, text)] else []) @ walk dir es"
| "walk dir (DirNode entry readable sub # es) =
     (if entry \<noteq> ''.git'' \<and> readable then walk (joinPath dir entry) sub else []) @ walk dir es"
| "walk dir (BrokenNode entry # es) = []"

text \<open>\<open>getFilesToCheck\<close>; \<open>root\<close> is \<open>None\<close> when \<open>MEMORY_DIR\<close> cannot be read.\<close>

definition getFilesToCheck :: "string \<Rightarrow> fsnode list option \<Rightarrow> (string \<times> string option) list" where
  "getFilesToCheck memoryDir root = (case root of None \<Rightarrow> [] | Some es \<Rightarrow> walk memoryDir es)"

text \<open>
  \<open>relative(MEMORY_DIR, file)\<close> for a path that \<open>walk\<close> built by joining entry names to
  \<open>MEMORY_DIR\<close>.
\<close>

definition relative :: "string \<Rightarrow> string \<Rightarrow> string" where
  "relative from to =
     (if startsWith to (from @ ''/'') then drop (length from + 1) to else to)"

text \<open>The configuration file, as far as the hooks read it.\<close>

record privacy_config =
  redact_pii :: bool

record sync_config =
  on_session_start :: bool
  on_session_end :: bool

record config =
  sync_enabled :: bool
  device_name :: string
  sync :: "sync_config option"
  privacy :: "privacy_config option"

text \<open>The loop of \<open>main\<close> over the files: \<open>piiDetected\<close>.\<close>

fun detect :: "string \<Rightarrow> (string \<times> string option) list \<Rightarrow> (string \<times> string list) list" where
  "detect memoryDir [] = []"
| "detect memoryDir ((file, text) # fs) =
     (let result = checkFileForPII file text
      in (if hasPII result then [(relative memoryDir file, findings result)] else [])
         @ detect memoryDir fs)"

text \<open>
  \<open>main\<close> of the gate. \<open>stdinOk\<close>: the event on standard input parses; \<open>cfg\<close>: what
  \<open>loadConfig\<close> returns. The result is the exit status and the per-file report printed
  before a blocking exit. A missing \<open>privacy\<close> section throws and ends in the
  \<open>catch\<close>, which exits with status 0.
\<close>

record gate_result =
  exitCode :: nat
  report :: "(string \<times> string list) list"

definition main_PrePush ::
  "string \<Rightarrow> bool \<Rightarrow> config option \<Rightarrow> fsnode list option \<Rightarrow> gate_result" where
  "main_PrePush memoryDir stdinOk cfg root =
     (if \<not> stdinOk then \<lparr>exitCode = 0, report = []\<rparr>
      else (case cfg of
              None \<Rightarrow> \<lparr>exitCode = 0, report = []\<rparr>
            | Some c \<Rightarrow>
               (case privacy c of
                  None \<Rightarrow> \<lparr>exitCode = 0, report = []\<rparr>
                | Some pr \<Rightarrow>
                    if \<not> redact_pii pr then \<lparr>exitCode = 0, report = []\<rparr>
                    else (let filesToCheck = getFilesToCheck memoryDir root
                          in if filesToCheck = [] then \<lparr>exitCode = 0, report = []\<rparr>
                             else (let piiDetected = detect memoryDir filesToCheck
                                   in if piiDetected \<noteq> []
                                      then \<lparr>exitCode = 2, report = piiDetected\<rparr>
                                      else \<lparr>exitCode = 0, report = []\<rparr>)))))"

section \<open>Scripts/resolve-conflicts.ts: the conflict resolver\<close>

text \<open>The line feed and the double quote.\<close>

definition nl :: char where
  "nl = CHR 0x0A"

definition dq :: char where
  "dq = CHR 0x22"

text \<open>The class \<open>.\<close> without the \<open>s\<close> flag: any character but a line terminator.\<close>

definition isLineTerminator :: "char \<Rightarrow> bool" where
  "isLineTerminator c = (c = CHR 0x0A \<or> c = CHR 0x0D)"

definition MANUAL_RESOLUTION_FILES :: "string list" where
  "MANUAL_RESOLUTION_FILES = [''.config.json'', ''.sync-config.json'', ''sync/device-registry.json'']"

record conflict_markers =
  local :: string
  remote :: string

text \<open>\<open>conflictPattern = /<<<<<<< HEAD\n([\s\S]*?)\n=======\n([\s\S]*?)\n>>>>>>> .*/\<close>\<close>

definition conflictPattern :: "rx list" where
  "conflictPattern =
     [Lit (''<<<<<<< HEAD'' @ [nl]), Mark, RepLazy (\<lambda>c. True) 0 None, Mark,
      Lit ([nl] @ ''======='' @ [nl]), Mark, RepLazy (\<lambda>c. True) 0 None, Mark,
      Lit ([nl] @ ''>>>>>>> ''), Rep (\<lambda>c. \<not> isLineTerminator c) 0 None]"

definition extractConflict :: "string \<Rightarrow> conflict_markers option" where
  "extractConflict content =
     (case matchFirst conflictPattern None content of
        None \<Rightarrow> None
      | Some (m, ms) \<Rightarrow> Some \<lparr>local = group 1 ms, remote = group 2 ms\<rparr>)"

text \<open>
  A JavaScript \<open>Date\<close>: its time value in milliseconds, or the invalid date (time value
  \<open>NaN\<close>). \<open>a > b\<close> on two dates compares the time values, and is false when one is
  \<open>NaN\<close>. The constructor \<open>new Date(string)\<close> belongs to the host; the functions below
  take it as the parameter \<open>newDate\<close>.
\<close>

datatype date = InvalidDate | Date int

definition dateGt :: "date \<Rightarrow> date \<Rightarrow> bool" where
  "dateGt a b = (case a of InvalidDate \<Rightarrow> False
                 | Date x \<Rightarrow> (case b of InvalidDate \<Rightarrow> False | Date y \<Rightarrow> y < x))"

text \<open>
  The three patterns of \<open>extractTimestamp\<close>:
  \<open>/\d{4}-\d{2}-\d{2}T\d{2}:\d{2}:\d{2}/\<close>, \<open>/\d{4}-\d{2}-\d{2}\s+\d{2}:\d{2}:\d{2}/\<close>
  and \<open>/"last_updated":\s*"([^"]+)"/\<close>.
\<close>

definition isoPattern :: "rx list" where
  "isoPattern =
     [Rep isDigit 4 (Some 4), Lit ''-'', Rep isDigit 2 (Some 2), Lit ''-'', Rep isDigit 2 (Some 2),
      Lit ''T'', Rep isDigit 2 (Some 2), Lit '':'', Rep isDigit 2 (Some 2), Lit '':'',
      Rep isDigit 2 (Some 2)]"

definition dateTimePattern :: "rx list" where
  "dateTimePattern =
     [Rep isDigit 4 (Some 4), Lit ''-'', Rep isDigit 2 (Some 2), Lit ''-'', Rep isDigit 2 (Some 2),
      Rep isSpace 1 None, Rep isDigit 2 (Some 2), Lit '':'', Rep isDigit 2 (Some 2), Lit '':'',
      Rep isDigit 2 (Some 2)]"

definition lastUpdatedPattern :: "rx list" where
  "lastUpdatedPattern =
     [Lit ([dq] @ ''last_updated'' @ [dq] @ '':''), Rep isSpace 0 None, Lit [dq],
      Mark, Rep (\<lambda>c. c \<noteq> dq) 1 None, Mark, Lit [dq]]"

definition extractTimestamp :: "(string \<Rightarrow> date) \<Rightarrow> string \<Rightarrow> date option" where
  "extractTimestamp newDate content =
     (case matchFirst isoPattern None content of
        Some (m, ms) \<Rightarrow> Some (newDate m)
      | None \<Rightarrow>
         (case matchFirst dateTimePattern None content of
            Some (m, ms) \<Rightarrow> Some (newDate m)
          | None \<Rightarrow>
             (case matchFirst lastUpdatedPattern None content of
                Some (m, ms) \<Rightarrow> Some (newDate (group 1 ms))
              | None \<Rightarrow> None)))"

text \<open>
  The two patterns of \<open>extractDevice\<close>: \<open>/"device_name":\s*"([^"]+)"/\<close> and
  \<open>/\*\*Device\*\*:\s*(\S+)/\<close>.
\<close>

definition deviceNamePattern :: "rx list" where
  "deviceNamePattern =
     [Lit ([dq] @ ''device_name'' @ [dq] @ '':''), Rep isSpace 0 None, Lit [dq],
      Mark, Rep (\<lambda>c. c \<noteq> dq) 1 None, Mark, Lit [dq]]"

definition mdDevicePattern :: "rx list" where
  "mdDevicePattern =
     [Lit ''**Device**:'', Rep isSpace 0 None, Mark, Rep (\<lambda>c. \<not> isSpace c) 1 None, Mark]"

definition extractDevice :: "string \<Rightarrow> string" where
  "extractDevice content =
     (case matchFirst deviceNamePattern None content of
        Some (m, ms) \<Rightarrow> group 1 ms
      | None \<Rightarrow>
         (case matchFirst mdDevicePattern None content of
            Some (m, ms) \<Rightarrow> group 1 ms
          | None \<Rightarrow> ''unknown''))"

text \<open>
  \<open>resolveByTimestamp\<close>. The reason is kept as a value; the source prints it as a
  sentence, with the rounded difference in minutes for the last two.
\<close>

datatype winner = Local | Remote

datatype reason = NoTimestamps | OnlyRemote | OnlyLocal | RemoteNewer | LocalNewer

definition resolveByTimestamp :: "(string \<Rightarrow> date) \<Rightarrow> conflict_markers \<Rightarrow> winner \<times> reason" where
  "resolveByTimestamp newDate markers =
     (let localTs = extractTimestamp newDate (local markers);
          remoteTs = extractTimestamp newDate (remote markers)
      in if localTs = None \<and> remoteTs = None then (Local, NoTimestamps)
         else if localTs = None then (Remote, OnlyRemote)
         else if remoteTs = None then (Local, OnlyLocal)
         else if dateGt (the remoteTs) (the localTs) then (Remote, RemoteNewer)
         else (Local, LocalNewer))"

text \<open>
  \<open>String.prototype.replace(pattern, '')\<close> with a string pattern: the first occurrence
  is removed.
\<close>

fun removeFirst :: "string \<Rightarrow> string \<Rightarrow> string" where
  "removeFirst [] p = []"
| "removeFirst (c # cs) p =
     (if startsWith (c # cs) p then drop (length p) (c # cs) else c # removeFirst cs p)"

definition requiresManualResolution :: "string \<Rightarrow> string \<Rightarrow> bool" where
  "requiresManualResolution memoryDir filePath =
     (let relativePath = removeFirst filePath (memoryDir @ ''/'')
      in \<exists>pattern\<in>set MANUAL_RESOLUTION_FILES. includesStr relativePath pattern)"

text \<open>\<open>basename(filePath)\<close>\<close>

definition basename :: "string \<Rightarrow> string" where
  "basename filePath = rev (takeWhile (\<lambda>c. c \<noteq> CHR ''/'') (rev filePath))"

text \<open>
  The state that \<open>resolveFile\<close> reads and writes: the text files of the working copy by
  path, the paths staged by \<open>git add\<close>, the archived losing versions under
  \<open>sync/conflicts\<close> and the entries of \<open>resolution-log.md\<close>. An archive is kept by
  the parts of its file name (base name, device, timestamp; \<open>None\<close>: the time of the
  run) and its content; a log entry by the values printed.
\<close>

record archive_entry =
  archFile :: string
  archDevice :: string
  archTimestamp :: "date option"
  archContent :: string

record conflict_record =
  crFile :: string
  crWinner :: winner
  crReason :: reason
  crLocalDevice :: string
  crRemoteDevice :: string
  crLocalTimestamp :: "date option"
  crRemoteTimestamp :: "date option"

record repo =
  files :: "string \<Rightarrow> string option"
  staged :: "string list"
  archive :: "archive_entry list"
  resolutionLog :: "conflict_record list"

text \<open>
  What the resolver takes from outside: \<open>MEMORY_DIR\<close>, the \<open>Date\<close> constructor,
  whether \<open>writeFileSync\<close> of an archive succeeds and whether \<open>git add\<close> of a path
  succeeds. The archive is written to
  \<open>join(CONFLICTS_DIR, `${filename}.${device}.${tsStr}.archived`)\<close>, where the device is
  text of the file: with a \<open>/\<close> in it the path names a directory below
  \<open>sync/conflicts\<close>, and the write throws \<open>ENOENT\<close> unless that directory exists.
\<close>

record resolver_env =
  envMemoryDir :: string
  envNewDate :: "string \<Rightarrow> date"
  envArchiveOk :: "archive_entry \<Rightarrow> bool"
  envGitAddOk :: "string \<Rightarrow> bool"

text \<open>
  \<open>resolveFile\<close>: the result and the state after it. Every exception ends in the
  \<open>catch\<close>, which returns \<open>false\<close> and leaves what was written before it:
  \<open>readFileSync\<close> of a missing file; \<open>toISOString\<close> of an invalid date, in
  \<open>archiveLoserVersion\<close> for the losing timestamp and in \<open>logConflictResolution\<close> for
  either timestamp; a failing \<open>writeFileSync\<close> of the archive, before the file is
  rewritten; a failing \<open>git add\<close>. Rewriting the file that was read and appending to
  \<open>resolution-log.md\<close> succeed.
\<close>

definition resolveFile :: "resolver_env \<Rightarrow> repo \<Rightarrow> string \<Rightarrow> bool \<times> repo" where
  "resolveFile env st filePath =
     (if requiresManualResolution (envMemoryDir env) filePath then (False, st)
      else (case files st filePath of
         None \<Rightarrow> (False, st)
       | Some content \<Rightarrow>
          (case extractConflict content of
             None \<Rightarrow> (False, st)
           | Some markers \<Rightarrow>
              (let localDevice = extractDevice (local markers);
                   remoteDevice = extractDevice (remote markers);
                   localTimestamp = extractTimestamp (envNewDate env) (local markers);
                   remoteTimestamp = extractTimestamp (envNewDate env) (remote markers);
                   resolution = resolveByTimestamp (envNewDate env) markers;
                   loserContent = (if fst resolution = Local then remote markers else local markers);
                   loserDevice = (if fst resolution = Local then remoteDevice else localDevice);
                   loserTimestamp = (if fst resolution = Local then remoteTimestamp else localTimestamp)
               in if loserTimestamp = Some InvalidDate then (False, st)
                  else if \<not> envArchiveOk env
                            \<lparr>archFile = basename filePath, archDevice = loserDevice,
                             archTimestamp = loserTimestamp, archContent = loserContent\<rparr>
                  then (False, st)
                  else
                   (let st1 = st\<lparr>archive := archive st @
                          [\<lparr>archFile = basename filePath, archDevice = loserDevice,
                            archTimestamp = loserTimestamp, archContent = loserContent\<rparr>]\<rparr>;
                        winnerContent = (if fst resolution = Local then local markers else remote markers);
                        st2 = st1\<lparr>files := (files st1)(filePath \<mapsto> winnerContent)\<rparr>
                    in if \<not> envGitAddOk env filePath then (False, st2)
                       else
                        (let st3 = st2\<lparr>staged := staged st2 @ [filePath]\<rparr>
                         in if localTimestamp = Some InvalidDate \<or> remoteTimestamp = Some InvalidDate
                            then (False, st3)
                            else (True, st3\<lparr>resolutionLog := resolutionLog st3 @
                                    [\<lparr>crFile = filePath, crWinner = fst resolution,
                                      crReason = snd resolution,
                                      crLocalDevice = localDevice, crRemoteDevice = remoteDevice,
                                      crLocalTimestamp = localTimestamp,
                                      crRemoteTimestamp = remoteTimestamp\<rparr>]\<rparr>)))))))"

section \<open>The hooks: what they read and write\<close>

text \<open>
  The result of \<open>execSync\<close>: the standard output, or the error thrown (\<open>Inl\<close>) with its
  \<open>code\<close> (\<open>ETIMEDOUT\<close> after a timeout), its exit \<open>status\<close> and its \<open>message\<close>.
\<close>

record exec_error =
  errCode :: string
  errStatus :: "nat option"
  errMessage :: string

type_synonym exec_result = "exec_error + string"

text \<open>
  A JSON file: missing, not of the shape that the code reads (\<open>JSON.parse\<close> or a later
  access throws), or read as a value.
\<close>

datatype 'a json_file = Missing | Malformed | Parsed 'a

record pending_push =
  timestamp :: string
  commit_hash :: string
  retry_count :: int
  error :: "string option"
  last_retry :: "string option"

record device_record =
  first_seen :: string
  last_seen :: string

text \<open>
  \<open>device-registry.json\<close>: the members of its \<open>devices\<close> object, each a device record, by
  name, and \<open>last_updated\<close>. \<open>registry.devices[deviceName]\<close> reads such a member, and
  for a name that is none of them the property that the object inherits from
  \<open>Object.prototype\<close>, if there is one under that name: a function or an object, which is
  truthy and which \<open>JSON.stringify\<close> does not write.
\<close>

record registry =
  devices :: "string \<Rightarrow> device_record option"
  last_updated :: string

definition objectPrototypeKeys :: "string list" where
  "objectPrototypeKeys =
     [''constructor'', ''__defineGetter__'', ''__defineSetter__'', ''hasOwnProperty'',
      ''__lookupGetter__'', ''__lookupSetter__'', ''isPrototypeOf'', ''propertyIsEnumerable'',
      ''toString'', ''valueOf'', ''__proto__'', ''toLocaleString'']"

text \<open>
  What a hook does to the outside, in order: the commands it runs through \<open>execSync\<close>
  (\<open>git pull --rebase --quiet\<close>, \<open>git status --short\<close>, \<open>git push --quiet\<close>,
  \<open>git add .\<close>, \<open>git commit -m ...\<close>, \<open>git rev-parse HEAD\<close>, the redaction script) and
  the files it writes (\<open>pending-pushes.json\<close>, \<open>device-registry.json\<close>, the daily log).
\<close>

datatype action =
    GitPull | GitStatus | GitPush | GitAdd | GitCommit | GitRevParse
  | RunRedaction | WriteQueue | WriteRegistry | AppendDailyLog

text \<open>
  The state of a hook run: the actions so far, the pending-push queue, the device
  registry, and the working copy as \<open>git\<close> leaves it (the state of the resolver).
  Creating a directory and writing a file succeed.
\<close>

record hook_state =
  trace :: "action list"
  queue :: "pending_push list json_file"
  deviceRegistry :: "registry json_file"
  worktree :: repo

section \<open>Hooks/SessionStart.ts\<close>

text \<open>
  What a run of the hook takes from outside: whether the event on standard input
  parses, what \<open>loadConfig\<close> returns, whether \<open>MEMORY_DIR\<close> exists, the results of
  \<open>git pull\<close>, of \<open>git status\<close> and of the \<open>k\<close>-th \<open>git push\<close> of the run, and the clock
  (\<open>new Date().toISOString()\<close>, one reading for the run).
\<close>

record start_env =
  startStdinOk :: bool
  startConfig :: "config option"
  startDirExists :: bool
  pullResult :: exec_result
  startStatusResult :: exec_result
  retryPushResult :: "nat \<Rightarrow> exec_result"
  startNow :: string

record pull_result =
  pullSuccess :: bool
  pullMessage :: string

text \<open>The \<open>catch\<close> of \<open>pullFromCloud\<close>.\<close>

definition pullFailed :: "exec_error \<Rightarrow> pull_result" where
  "pullFailed e =
     (if errCode e = ''ETIMEDOUT''
      then \<lparr>pullSuccess = True, pullMessage = ''Offline mode - sync skipped''\<rparr>
      else if errStatus e = Some 128
      then \<lparr>pullSuccess = True, pullMessage = ''Offline mode - git error''\<rparr>
      else \<lparr>pullSuccess = True, pullMessage = ''Offline mode - error during pull''\<rparr>)"

definition pullFromCloud :: "start_env \<Rightarrow> pull_result \<times> action list" where
  "pullFromCloud env =
     (case pullResult env of
        Inl e \<Rightarrow> (pullFailed e, [GitPull])
      | Inr output \<Rightarrow>
         (case startStatusResult env of
            Inl e \<Rightarrow> (pullFailed e, [GitPull, GitStatus])
          | Inr status \<Rightarrow>
              if includesStr status ''UU'' \<or> includesStr status ''AA''
              then (\<lparr>pullSuccess = False, pullMessage = ''Conflicts detected - see git status''\<rparr>,
                    [GitPull, GitStatus])
              else (\<lparr>pullSuccess = True, pullMessage = ''Synced with cloud''\<rparr>,
                    [GitPull, GitStatus])))"

text \<open>
  The loop of \<open>retryPendingPushes\<close>: \<open>stillPending\<close>, and the number of pushes attempted
  so far in the run (\<open>k\<close> before the loop).
\<close>

fun retryLoop ::
  "(nat \<Rightarrow> exec_result) \<Rightarrow> string \<Rightarrow> nat \<Rightarrow> pending_push list \<Rightarrow> pending_push list \<times> nat" where
  "retryLoop pushResult now k [] = ([], k)"
| "retryLoop pushResult now k (push # pending) =
     (if 3 \<le> retry_count push
      then (let (stillPending, k') = retryLoop pushResult now k pending
            in (push # stillPending, k'))
      else (case pushResult k of
              Inr output \<Rightarrow> retryLoop pushResult now (Suc k) pending
            | Inl e \<Rightarrow>
                (let (stillPending, k') = retryLoop pushResult now (Suc k) pending
                 in (push\<lparr>retry_count := retry_count push + 1,
                          last_retry := Some now,
                          error := Some (errMessage e)\<rparr> # stillPending, k'))))"

definition retryPendingPushes :: "start_env \<Rightarrow> hook_state \<Rightarrow> hook_state" where
  "retryPendingPushes env st =
     (case queue st of
        Missing \<Rightarrow> st
      | Malformed \<Rightarrow> st
      | Parsed pending \<Rightarrow>
          if pending = [] then st
          else (let (stillPending, k) = retryLoop (retryPushResult env) (startNow env) 0 pending
                in st\<lparr>trace := trace st @ replicate k GitPush @ [WriteQueue],
                      queue := Parsed stillPending\<rparr>))"

text \<open>
  \<open>updateDeviceRegistry\<close>: a registered device gets its \<open>last_seen\<close>; for a name that
  \<open>devices\<close> only inherits, \<open>last_seen\<close> is set on the inherited object, and the file is
  written with a new \<open>last_updated\<close> and the devices it had; any other name is logged
  as not in the registry, and nothing is written.
\<close>

definition updateDeviceRegistry :: "string \<Rightarrow> string \<Rightarrow> hook_state \<Rightarrow> hook_state" where
  "updateDeviceRegistry deviceName now st =
     (case deviceRegistry st of
        Missing \<Rightarrow> st
      | Malformed \<Rightarrow> st
      | Parsed reg \<Rightarrow>
         (case devices reg deviceName of
            None \<Rightarrow>
              if deviceName \<in> set objectPrototypeKeys
              then st\<lparr>trace := trace st @ [WriteRegistry],
                      deviceRegistry := Parsed (reg\<lparr>last_updated := now\<rparr>)\<rparr>
              else st
          | Some d \<Rightarrow>
              st\<lparr>trace := trace st @ [WriteRegistry],
                 deviceRegistry :=
                   Parsed (reg\<lparr>devices := (devices reg)(deviceName \<mapsto> d\<lparr>last_seen := now\<rparr>),
                               last_updated := now\<rparr>)\<rparr>))"

text \<open>
  \<open>main\<close> of the hook: the exit status and the state after the run. Every path ends in
  \<open>process.exit(0)\<close>; a configuration without its \<open>sync\<close> section throws and ends in
  the \<open>catch\<close>.
\<close>

definition main_SessionStart :: "start_env \<Rightarrow> hook_state \<Rightarrow> nat \<times> hook_state" where
  "main_SessionStart env st =
     (if \<not> startStdinOk env then (0, st)
      else (case startConfig env of
         None \<Rightarrow> (0, st)
       | Some c \<Rightarrow>
          if \<not> sync_enabled c then (0, st)
          else (case sync c of
             None \<Rightarrow> (0, st)
           | Some sc \<Rightarrow>
              if \<not> on_session_start sc then (0, st)
              else if \<not> startDirExists env then (0, st)
              else (let (pulled, acts) = pullFromCloud env;
                        st1 = st\<lparr>trace := trace st @ acts\<rparr>;
                        st2 = retryPendingPushes env st1;
                        st3 = (if device_name c \<noteq> []
                               then updateDeviceRegistry (device_name c) (startNow env) st2
                               else st2)
                    in (0, st3)))))"

section \<open>Hooks/SessionEnd.ts\<close>

text \<open>
  What a run of the hook takes from outside: the event, the configuration and the
  directory as above; whether the redaction script exists and the result of running
  it; the results of \<open>git status\<close>, \<open>git add\<close>, \<open>git commit\<close>, \<open>git rev-parse HEAD\<close> and
  \<open>git push\<close>; the clock.
\<close>

record end_env =
  endStdinOk :: bool
  endConfig :: "config option"
  endDirExists :: bool
  scriptExists :: bool
  scriptResult :: exec_result
  endStatusResult :: exec_result
  addResult :: exec_result
  commitResult :: exec_result
  revParseResult :: exec_result
  pushResult :: exec_result
  endNow :: string

text \<open>
  \<open>redactPII\<close> of the hook, which runs the redaction script; here \<open>runRedactPII\<close>, as
  the function \<open>redactPII\<close> of the script has the name already.
\<close>

definition runRedactPII :: "end_env \<Rightarrow> bool \<times> action list" where
  "runRedactPII env =
     (if \<not> scriptExists env then (True, [])
      else (case scriptResult env of
              Inr output \<Rightarrow> (True, [RunRedaction])
            | Inl e \<Rightarrow> (False, [RunRedaction])))"

text \<open>\<open>createCommit\<close>: the commit hash, or \<open>None\<close> for \<open>null\<close>.\<close>

definition createCommit :: "end_env \<Rightarrow> string option \<times> action list" where
  "createCommit env =
     (case endStatusResult env of
        Inl e \<Rightarrow> (None, [GitStatus])
      | Inr status \<Rightarrow>
          if trim status = [] then (None, [GitStatus])
          else (case addResult env of
             Inl e \<Rightarrow> (None, [GitStatus, GitAdd])
           | Inr o1 \<Rightarrow>
              (case commitResult env of
                 Inl e \<Rightarrow> (None, [GitStatus, GitAdd, GitCommit])
               | Inr o2 \<Rightarrow>
                  (case revParseResult env of
                     Inl e \<Rightarrow> (None, [GitStatus, GitAdd, GitCommit, GitRevParse])
                   | Inr h \<Rightarrow> (Some (trim h), [GitStatus, GitAdd, GitCommit, GitRevParse])))))"

record push_result =
  success :: bool
  pushError :: "string option"

definition pushToCloud :: "end_env \<Rightarrow> push_result \<times> action list" where
  "pushToCloud env =
     (case pushResult env of
        Inr output \<Rightarrow> (\<lparr>success = True, pushError = None\<rparr>, [GitPush])
      | Inl e \<Rightarrow> (\<lparr>success = False, pushError = Some (errMessage e)\<rparr>, [GitPush]))"

text \<open>
  \<open>queuePendingPush\<close>: the queue file after it, and the write if there is one. A file
  that does not parse to an array ends in the \<open>catch\<close>, which logs and writes nothing.
\<close>

definition queuePendingPush ::
  "string \<Rightarrow> string \<Rightarrow> string \<Rightarrow> pending_push list json_file
     \<Rightarrow> pending_push list json_file \<times> action list" where
  "queuePendingPush commitHash err now q =
     (let entry = \<lparr>timestamp = now, commit_hash = commitHash, retry_count = 0,
                    error = Some err, last_retry = None\<rparr>
      in case q of
           Missing \<Rightarrow> (Parsed [entry], [WriteQueue])
         | Parsed pending \<Rightarrow> (Parsed (pending @ [entry]), [WriteQueue])
         | Malformed \<Rightarrow> (Malformed, []))"

text \<open>\<open>pushResult.error || 'Unknown error'\<close>\<close>

definition errorOrUnknown :: "string option \<Rightarrow> string" where
  "errorOrUnknown e = (case e of None \<Rightarrow> ''Unknown error''
                       | Some m \<Rightarrow> if m = [] then ''Unknown error'' else m)"

text \<open>
  \<open>main\<close> of the hook, from the commit step on, and the whole of it. Every path ends
  in \<open>process.exit(0)\<close>; an empty commit hash counts as no commit (\<open>!commitHash\<close>).
\<close>

definition commitAndPush :: "end_env \<Rightarrow> hook_state \<Rightarrow> nat \<times> hook_state" where
  "commitAndPush env st =
     (let (commitHash, acts) = createCommit env;
          st1 = st\<lparr>trace := trace st @ acts\<rparr>
      in case commitHash of
           None \<Rightarrow> (0, st1)
         | Some h \<Rightarrow>
            if h = [] then (0, st1)
            else (let (pushed, acts2) = pushToCloud env;
                      st2 = st1\<lparr>trace := trace st1 @ acts2\<rparr>;
                      st3 = (if \<not> success pushed
                             then (let (q, acts3) = queuePendingPush h
                                         (errorOrUnknown (pushError pushed)) (endNow env) (queue st2)
                                   in st2\<lparr>trace := trace st2 @ acts3, queue := q\<rparr>)
                             else st2)
                  in (0, st3\<lparr>trace := trace st3 @ [AppendDailyLog]\<rparr>)))"

definition main_SessionEnd :: "end_env \<Rightarrow> hook_state \<Rightarrow> nat \<times> hook_state" where
  "main_SessionEnd env st =
     (if \<not> endStdinOk env then (0, st)
      else (case endConfig env of
         None \<Rightarrow> (0, st)
       | Some c \<Rightarrow>
          if \<not> sync_enabled c then (0, st)
          else (case sync c of
             None \<Rightarrow> (0, st)
           | Some sc \<Rightarrow>
              if \<not> on_session_end sc then (0, st)
              else if \<not> endDirExists env then (0, st)
              else (case privacy c of
                 None \<Rightarrow> (0, st)
               | Some pr \<Rightarrow>
                  if redact_pii pr
                  then (let (redactionSuccess, acts) = runRedactPII env;
                            st1 = st\<lparr>trace := trace st @ acts\<rparr>
                        in if \<not> redactionSuccess then (0, st1)
                           else commitAndPush env st1)
                  else commitAndPush env st))))"

text \<open>
  The queue files that the two hooks can leave behind, starting without a file:
  after \<open>queuePendingPush\<close> at the end of a session, after \<open>retryPendingPushes\<close> at the
  start of one.
\<close>

inductive storedQueue :: "pending_push list json_file \<Rightarrow> bool" where
  initial: "storedQueue Missing"
| enqueue: "storedQueue q \<Longrightarrow> storedQueue (fst (queuePendingPush commitHash err now q))"
| drain: "storedQueue (queue st) \<Longrightarrow> storedQueue (queue (retryPendingPushes env st))"

text \<open>The actions of a run that leads from the state \<open>st\<close> to the state \<open>st'\<close>.\<close>

definition ranActions :: "hook_state \<Rightarrow> hook_state \<Rightarrow> action list" where
  "ranActions st st' = drop (length (trace st)) (trace st')"

text \<open>The bound on the retry counts of a queue file.\<close>

definition queueBounded :: "pending_push list json_file \<Rightarrow> bool" where
  "queueBounded q = (case q of Parsed ps \<Rightarrow> list_all (\<lambda>p. 0 \<le> retry_count p \<and> retry_count p \<le> 3) ps
                     | _ \<Rightarrow> True)"

text \<open>A configuration with every switch on, for the concrete runs below.\<close>

definition cfgOn :: config where
  "cfgOn = \<lparr>sync_enabled = True, device_name = ''laptop'',
     sync = Some \<lparr>on_session_start = True, on_session_end = True\<rparr>,
     privacy = Some \<lparr>redact_pii = True\<rparr>\<rparr>"

text \<open>
  A \<open>Date\<close> constructor for the concrete runs below: it knows the two timestamps of the
  scenario, as milliseconds since the epoch in UTC.
\<close>

definition exampleDate :: "string \<Rightarrow> date" where
  "exampleDate s = (if s = ''2026-01-10T14:00:00'' then Date 1768053600000
                    else if s = ''2026-01-10T15:30:00'' then Date 1768059000000
                    else InvalidDate)"

text \<open>
  The resolver on a host where \<open>sync/conflicts\<close> holds no directory (an archive is
  written unless its device holds a \<open>/\<close>) and \<open>git add\<close> succeeds.
\<close>

definition exampleEnv :: resolver_env where
  "exampleEnv = \<lparr>envMemoryDir = ''/home/u/.claude-memory-cloud'', envNewDate = exampleDate,
                  envArchiveOk = (\<lambda>e. \<not> includesStr (archDevice e) ''/''),
                  envGitAddOk = (\<lambda>p. True)\<rparr>"

definition emptyRepo :: repo where
  "emptyRepo = \<lparr>files = (\<lambda>p. None), staged = [], archive = [], resolutionLog = []\<rparr>"

text \<open>
  Two conflicted files for the concrete runs below: one with text around the conflict
  and no timestamp, one with the two timestamps of the scenario.
\<close>

definition conflictInContext :: string where
  "conflictInContext =
     ''intro'' @ [nl] @ ''<<<<<<< HEAD'' @ [nl] @ ''local text'' @ [nl] @ ''======='' @ [nl]
     @ ''remote text'' @ [nl] @ ''>>>>>>> origin/main'' @ [nl] @ ''outro'' @ [nl]"

definition conflictTimestamps :: string where
  "conflictTimestamps =
     ''<<<<<<< HEAD'' @ [nl] @ ''last_updated: 2026-01-10T14:00:00'' @ [nl] @ ''A'' @ [nl]
     @ ''======='' @ [nl] @ ''**Device**: desk when 2026-01-10T15:30:00 B'' @ [nl]
     @ ''>>>>>>> origin/main''"

definition repoWith :: "string \<Rightarrow> string \<Rightarrow> repo" where
  "repoWith filePath content = emptyRepo\<lparr>files := (\<lambda>p. None)(filePath \<mapsto> content)\<rparr>"

text \<open>An error of \<open>execSync\<close>, hook states and environments for the concrete runs below.\<close>

definition networkError :: exec_error where
  "networkError = \<lparr>errCode = '''', errStatus = Some 128,
                    errMessage = ''Command failed: git push --quiet''\<rparr>"

definition emptyState :: hook_state where
  "emptyState = \<lparr>trace = [], queue = Missing, deviceRegistry = Missing, worktree = emptyRepo\<rparr>"

definition offlineStart :: start_env where
  "offlineStart = \<lparr>startStdinOk = True, startConfig = Some cfgOn, startDirExists = True,
     pullResult = Inl networkError, startStatusResult = Inr '''',
     retryPushResult = (\<lambda>k. Inl networkError), startNow = ''2026-01-11T09:00:00.000Z''\<rparr>"

definition conflictStart :: start_env where
  "conflictStart = \<lparr>startStdinOk = True, startConfig = Some cfgOn, startDirExists = True,
     pullResult = Inr '''', startStatusResult = Inr ''UU notes.md'',
     retryPushResult = (\<lambda>k. Inr ''''), startNow = ''2026-01-11T09:00:00.000Z''\<rparr>"

definition pushFailsEnd :: end_env where
  "pushFailsEnd = \<lparr>endStdinOk = True, endConfig = Some cfgOn, endDirExists = True,
     scriptExists = True, scriptResult = Inr '''',
     endStatusResult = Inr '' M notes.md'', addResult = Inr '''', commitResult = Inr '''',
     revParseResult = Inr (''0f3a9c2'' @ [nl]), pushResult = Inl networkError,
     endNow = ''2026-01-10T18:00:00.000Z''\<rparr>"

definition redactionFailsEnd :: end_env where
  "redactionFailsEnd = pushFailsEnd\<lparr>scriptResult := Inl networkError\<rparr>"

definition queuedEntry :: pending_push where
  "queuedEntry = \<lparr>timestamp = ''2026-01-10T18:00:00.000Z'', commit_hash = ''0f3a9c2'',
                   retry_count = 0, error = Some ''Command failed: git push --quiet'',
                   last_retry = None\<rparr>"

definition exampleRegistry :: registry where
  "exampleRegistry = \<lparr>devices = (\<lambda>d. None)(''laptop'' \<mapsto>
                          \<lparr>first_seen = ''2026-01-01T08:00:00.000Z'',
                           last_seen = ''2026-01-10T08:00:00.000Z''\<rparr>),
                       last_updated = ''2026-01-10T08:00:00.000Z''\<rparr>"

text \<open>
  The state at a session start after a pull that left \<open>notes.md\<close> conflicted, with one
  push queued and the device registered.
\<close>

definition conflictState :: hook_state where
  "conflictState = \<lparr>trace = [], queue = Parsed [queuedEntry],
     deviceRegistry = Parsed exampleRegistry,
     worktree = repoWith ''/home/u/.claude-memory-cloud/notes.md'' conflictTimestamps\<rparr>"

section \<open>Facts about strings and the matcher\<close>

lemma startsWith_iff: "startsWith s p \<longleftrightarrow> (\<exists>r. s = p @ r)"
  by (induction s p rule: startsWith.induct) auto

lemma startsWith_append [simp]: "startsWith (p @ r) p"
  by (simp add: startsWith_iff)

lemma first_some_Some: "first_some f ns = Some r \<Longrightarrow> \<exists>n\<in>set ns. f n = Some r"
  by (induction ns) (auto split: option.splits)

lemma first_some_not_None: "n \<in> set ns \<Longrightarrow> f n \<noteq> None \<Longrightarrow> first_some f ns \<noteq> None"
  by (induction ns) (auto split: option.splits)

lemma startsWith_rev_append [simp]: "startsWith (rev suf @ r) (rev suf)"
  by (simp add: startsWith_iff)

lemma endsWith_iff: "endsWith s suf \<longleftrightarrow> (\<exists>p. s = p @ suf)"
proof
  assume "endsWith s suf"
  then obtain r where "rev s = rev suf @ r"
    unfolding endsWith_def startsWith_iff by blast
  then have "rev (rev s) = rev (rev suf @ r)" by simp
  then have "s = rev r @ suf" by simp
  then show "\<exists>p. s = p @ suf" by blast
next
  assume "\<exists>p. s = p @ suf"
  then show "endsWith s suf" by (auto simp: endsWith_def startsWith_iff)
qed

section \<open>Redaction is idempotent\<close>

lemma step_Lit_Some:
  "step (Lit l) k prev ms s = Some x \<Longrightarrow> \<exists>p t. s = l @ t \<and> k p ms t = Some x"
  by (auto simp: startsWith_iff split: if_splits)

lemma step_Rep_Some:
  assumes "step (Rep c lo hi) k prev ms s = Some x"
  shows "\<exists>p n. lo \<le> n \<and> n \<le> run c hi s \<and> k p ms (drop n s) = Some x"
proof -
  from assms obtain n where "lo \<le> n" "n \<le> run c hi s" "k (prevAfter prev s n) ms (drop n s) = Some x"
    by (auto dest!: first_some_Some)
  then show ?thesis by blast
qed

lemma step_RepLazy_Some:
  assumes "step (RepLazy c lo hi) k prev ms s = Some x"
  shows "\<exists>p n. lo \<le> n \<and> n \<le> run c hi s \<and> k p ms (drop n s) = Some x"
proof -
  from assms obtain n where "lo \<le> n" "n \<le> run c hi s" "k (prevAfter prev s n) ms (drop n s) = Some x"
    by (auto dest!: first_some_Some)
  then show ?thesis by blast
qed

lemma step_BackRef_Some:
  "step (BackRef g) k prev ms s = Some x \<Longrightarrow> \<exists>p t. s = group g ms @ t \<and> k p ms t = Some x"
  by (auto simp: startsWith_iff split: if_splits)

lemma run_le_length: "run c hi s \<le> length (takeWhile c s)"
  by (simp add: run_def Let_def split: option.splits)

lemma marker_sound:
  assumes A: "m_at PII_MARKER_PATTERN prev [] s = Some (r, ms)"
  shows "\<exists>T mid. isType T \<and> s = openTag T @ mid @ closeTag T @ r \<and> group 1 ms = T"
proof -
  define k9 where "k9 = step (Lit '']'') (m_at [])"
  define k8 where "k8 = step (BackRef 1) k9"
  define k7 where "k7 = step (Lit ''[/PII:'') k8"
  define k6 where "k6 = step (RepLazy (\<lambda>c. True) 0 None) (step Mark k7)"
  define k4 where "k4 = step (Lit '']'') (step Mark k6)"
  define k2 where "k2 = step (Rep isWordChar 1 None) (step Mark k4)"
  from A have "step (Lit ''[PII:'') (step Mark k2) prev [] s = Some (r, ms)"
    by (simp only: PII_MARKER_PATTERN_def m_at.simps k9_def k8_def k7_def k6_def k4_def k2_def)
  from step_Lit_Some [OF this] obtain p1 s1 where s: "s = ''[PII:'' @ s1"
    and "step Mark k2 p1 [] s1 = Some (r, ms)"
    by blast
  then have "step (Rep isWordChar 1 None) (step Mark k4) p1 [s1] s1 = Some (r, ms)"
    by (simp add: k2_def)
  from step_Rep_Some [OF this] obtain p2 n where n: "1 \<le> n" "n \<le> run isWordChar None s1"
    and "step Mark k4 p2 [s1] (drop n s1) = Some (r, ms)"
    by blast
  then have "step (Lit '']'') (step Mark k6) p2 [s1, drop n s1] (drop n s1) = Some (r, ms)"
    by (simp add: k4_def)
  from step_Lit_Some [OF this] obtain p3 s2 where s2: "drop n s1 = '']'' @ s2"
    and "step Mark k6 p3 [s1, drop n s1] s2 = Some (r, ms)"
    by blast
  then have "step (RepLazy (\<lambda>c. True) 0 None) (step Mark k7) p3 [s1, drop n s1, s2] s2 = Some (r, ms)"
    by (simp add: k6_def)
  from step_RepLazy_Some [OF this] obtain p4 j where
    "step Mark k7 p4 [s1, drop n s1, s2] (drop j s2) = Some (r, ms)"
    by blast
  then have "step (Lit ''[/PII:'') k8 p4 [s1, drop n s1, s2, drop j s2] (drop j s2) = Some (r, ms)"
    by (simp add: k7_def)
  from step_Lit_Some [OF this] obtain p5 s3 where s3: "drop j s2 = ''[/PII:'' @ s3"
    and "k8 p5 [s1, drop n s1, s2, drop j s2] s3 = Some (r, ms)"
    by blast
  then have "step (BackRef 1) k9 p5 [s1, drop n s1, s2, drop j s2] s3 = Some (r, ms)"
    by (simp add: k8_def)
  from step_BackRef_Some [OF this] obtain p6 s4
    where s4: "s3 = group 1 [s1, drop n s1, s2, drop j s2] @ s4"
    and "k9 p6 [s1, drop n s1, s2, drop j s2] s4 = Some (r, ms)"
    by blast
  then have "step (Lit '']'') (m_at []) p6 [s1, drop n s1, s2, drop j s2] s4 = Some (r, ms)"
    by (simp add: k9_def)
  from step_Lit_Some [OF this] obtain p7 s5 where s5: "s4 = '']'' @ s5"
    and "m_at [] p7 [s1, drop n s1, s2, drop j s2] s5 = Some (r, ms)"
    by blast
  then have r: "r = s5" and ms: "ms = [s1, drop n s1, s2, drop j s2]"
    by simp_all
  define T where "T = take n s1"
  from n have nl: "n \<le> length (takeWhile isWordChar s1)"
    using run_le_length [of isWordChar None s1] by simp
  then have nl': "n \<le> length s1"
    using length_takeWhile_le [of isWordChar s1] by simp
  have g: "group 1 [s1, drop n s1, s2, drop j s2] = T"
    using nl' by (simp add: group_def T_def)
  have "take n s1 = take n (takeWhile isWordChar s1 @ dropWhile isWordChar s1)" by simp
  also have "\<dots> = take n (takeWhile isWordChar s1)" using nl by (simp del: takeWhile_dropWhile_id)
  finally have "T = take n (takeWhile isWordChar s1)" by (simp add: T_def)
  then have "set T \<subseteq> set (takeWhile isWordChar s1)"
    by (metis set_take_subset)
  then have w: "\<forall>c\<in>set T. isWordChar c"
    by (auto dest: set_takeWhileD)
  have ne: "T \<noteq> []" using n nl' by (auto simp: T_def)
  have t2: "drop j s2 = closeTag T @ r"
    using s3 s4 g s5 r by (simp add: closeTag_def)
  have "s1 = take n s1 @ drop n s1" by simp
  then have e1: "s1 = T @ '']'' @ s2"
    unfolding T_def s2 .
  have "s2 = take j s2 @ drop j s2" by simp
  then have e2: "s2 = take j s2 @ closeTag T @ r"
    unfolding t2 .
  have "s = ''[PII:'' @ (T @ '']'' @ s2)"
    by (rule trans [OF s]) (rule arg_cong [where f = "\<lambda>x. ''[PII:'' @ x"], rule e1)
  also have "\<dots> = ''[PII:'' @ (T @ '']'' @ (take j s2 @ closeTag T @ r))"
    by (rule arg_cong [where f = "\<lambda>x. ''[PII:'' @ (T @ '']'' @ x)"], rule e2)
  finally have "s = openTag T @ take j s2 @ closeTag T @ r"
    by (simp add: openTag_def)
  with w ne g ms show ?thesis by (auto simp: isType_def)
qed


lemma not_word_bracket [simp]: "\<not> isWordChar CHR '']''"
  by (simp add: isWordChar_def isLower_def isUpper_def isDigit_def)

lemma step_Lit_append:
  "step (Lit l) k prev ms (l @ t) = k (prevAfter prev (l @ t) (length l)) ms t"
  by simp

lemma step_BackRef_append:
  "group g ms = l \<Longrightarrow> step (BackRef g) k prev ms (l @ t) = k (prevAfter prev (l @ t) (length l)) ms t"
  by simp

lemma marker_complete:
  assumes T: "isType T"
  shows "m_at PII_MARKER_PATTERN prev [] (openTag T @ mid @ closeTag T @ r) \<noteq> None"
proof -
  define s2 where "s2 = mid @ closeTag T @ r"
  define s1 where "s1 = T @ '']'' @ s2"
  define k9 where "k9 = step (Lit '']'') (m_at [])"
  define k8 where "k8 = step (BackRef 1) k9"
  define k7 where "k7 = step (Lit ''[/PII:'') k8"
  define k6 where "k6 = step (RepLazy (\<lambda>c. True) 0 None) (step Mark k7)"
  define k4 where "k4 = step (Lit '']'') (step Mark k6)"
  define k2 where "k2 = step (Rep isWordChar 1 None) (step Mark k4)"
  have P: "m_at PII_MARKER_PATTERN = step (Lit ''[PII:'') (step Mark k2)"
    by (simp only: PII_MARKER_PATTERN_def m_at.simps k9_def k8_def k7_def k6_def k4_def k2_def)
  have s: "openTag T @ mid @ closeTag T @ r = ''[PII:'' @ s1"
    by (simp add: openTag_def s1_def s2_def)
  have tw: "takeWhile isWordChar s1 = T"
    using T by (simp add: s1_def isType_def takeWhile_append2)
  then have run1: "run isWordChar None s1 = length T"
    by (simp add: run_def)
  have dr1: "drop (length T) s1 = '']'' @ s2"
    by (simp add: s1_def)
  have g: "group 1 [s1, '']'' @ s2, s2, closeTag T @ r] = T"
    by (simp add: group_def s1_def)
  have "k9 p [s1, '']'' @ s2, s2, closeTag T @ r] ('']'' @ r) \<noteq> None" for p
    unfolding k9_def step_Lit_append by simp
  then have "k8 p [s1, '']'' @ s2, s2, closeTag T @ r] (T @ '']'' @ r) \<noteq> None" for p
    unfolding k8_def step_BackRef_append [OF g] by simp
  then have "k7 p [s1, '']'' @ s2, s2, closeTag T @ r] (''[/PII:'' @ T @ '']'' @ r) \<noteq> None" for p
    unfolding k7_def step_Lit_append by simp
  then have k7: "step Mark k7 p [s1, '']'' @ s2, s2] (drop (length mid) s2) \<noteq> None" for p
    by (simp add: s2_def closeTag_def)
  have "length mid \<in> set [0 ..< Suc (run (\<lambda>c. True) None s2)]"
    by (simp add: run_def s2_def)
  then have "k6 p [s1, '']'' @ s2, s2] s2 \<noteq> None" for p
    unfolding k6_def step.simps(3) by (rule first_some_not_None) (rule k7)
  then have "step Mark k6 p [s1, '']'' @ s2] s2 \<noteq> None" for p
    by simp
  then have "k4 p [s1, '']'' @ s2] ('']'' @ s2) \<noteq> None" for p
    unfolding k4_def step_Lit_append by simp
  then have k4: "step Mark k4 p [s1] (drop (length T) s1) \<noteq> None" for p
    by (simp add: dr1)
  have "length T \<in> set (rev [1 ..< Suc (run isWordChar None s1)])"
    using T by (auto simp: run1 isType_def Suc_le_eq)
  then have "k2 p [s1] s1 \<noteq> None" for p
    unfolding k2_def step.simps(2) by (rule first_some_not_None) (rule k4)
  then have "step Mark k2 p [] s1 \<noteq> None" for p
    by simp
  then show ?thesis
    unfolding P s step_Lit_append by simp
qed


lemma m_at_None_iff: "m_at PII_MARKER_PATTERN prev [] s = None \<longleftrightarrow> \<not> hit s"
proof
  assume n: "m_at PII_MARKER_PATTERN prev [] s = None"
  show "\<not> hit s"
  proof
    assume "hit s"
    then obtain T mid r where "isType T" "s = openTag T @ mid @ closeTag T @ r"
      unfolding hit_def by blast
    with marker_complete [of T prev mid r] n show False by simp
  qed
next
  assume h: "\<not> hit s"
  show "m_at PII_MARKER_PATTERN prev [] s = None"
  proof (cases "m_at PII_MARKER_PATTERN prev [] s")
    case None
    then show ?thesis .
  next
    case (Some x)
    then obtain r ms where "m_at PII_MARKER_PATTERN prev [] s = Some (r, ms)"
      by (cases x) simp
    from marker_sound [OF this] h show ?thesis unfolding hit_def by blast
  qed
qed

lemma not_hit_Nil [simp]: "\<not> hit []"
  by (simp add: hit_def openTag_def)

lemma redactFrom_Nil [simp]: "redactFrom prev [] = []"
proof -
  have "m_at PII_MARKER_PATTERN prev [] [] = None"
    by (simp add: m_at_None_iff)
  then show ?thesis by (simp add: replace.simps)
qed

lemma redactFrom_miss:
  assumes "\<not> hit (c # cs)"
  shows "redactFrom prev (c # cs) = c # redactFrom (Some c) cs"
proof -
  have "m_at PII_MARKER_PATTERN prev [] (c # cs) = None"
    using assms by (simp add: m_at_None_iff)
  then show ?thesis by (simp add: replace.simps [of _ _ _ "c # cs"])
qed

lemma redactFrom_hit:
  assumes "hit s"
  shows "\<exists>T mid r p. isType T \<and> s = openTag T @ mid @ closeTag T @ r
           \<and> redactFrom prev s = token T @ redactFrom p r"
proof -
  from assms have "m_at PII_MARKER_PATTERN prev [] s \<noteq> None"
    by (simp add: m_at_None_iff)
  then obtain r ms where m: "m_at PII_MARKER_PATTERN prev [] s = Some (r, ms)"
    by auto
  from marker_sound [OF m] obtain T mid
    where T: "isType T" and s: "s = openTag T @ mid @ closeTag T @ r" and g: "group 1 ms = T"
    by blast
  from s have "length r < length s"
    by (simp add: openTag_def)
  then have "redactFrom prev s = redacted ms @ redactFrom (prevAfter prev s (length s - length r)) r"
    using m by (simp add: replace.simps [of _ _ _ s])
  also have "redacted ms = token T"
    unfolding redacted_def token_def g ..
  finally have "redactFrom prev s = token T @ redactFrom (prevAfter prev s (length s - length r)) r" .
  with T s show ?thesis by blast
qed

lemma copy_prefix:
  "CHR ''['' \<notin> set p \<Longrightarrow> redactFrom prev s = p @ q \<Longrightarrow>
     \<exists>s' prev'. s = p @ s' \<and> redactFrom prev' s' = q"
proof (induction p arbitrary: prev s)
  case Nil
  then show ?case by auto
next
  case (Cons a p)
  show ?case
  proof (cases s)
    case Nil
    with Cons.prems show ?thesis by simp
  next
    case (Cons c cs)
    show ?thesis
    proof (cases "hit s")
      case True
      from redactFrom_hit [OF True, of prev] Cons.prems(2)
      have "a = CHR ''[''" by (auto simp: token_def)
      with Cons.prems(1) show ?thesis by simp
    next
      case False
      then have "redactFrom prev s = c # redactFrom (Some c) cs"
        unfolding Cons by (rule redactFrom_miss)
      from Cons.prems(2) [unfolded this] have "c # redactFrom (Some c) cs = a # (p @ q)" by auto
      then have "c = a \<and> redactFrom (Some c) cs = p @ q" by (rule list.inject [THEN iffD1])
      then have "c = a" and "redactFrom (Some c) cs = p @ q" by blast+
      moreover from Cons.prems(1) have "CHR ''['' \<notin> set p" by simp
      ultimately obtain s' prev' where "cs = p @ s'" "redactFrom prev' s' = q"
        using Cons.IH by blast
      with \<open>c = a\<close> Cons show ?thesis by auto
    qed
  qed
qed

lemma token_overlap:
  assumes t: "CHR ''['' \<notin> set t" and d: "d \<noteq> hd t" and tn: "t \<noteq> []"
    and e: "(CHR ''['' # t) @ x = a @ (CHR ''['' # d # w) @ b"
  shows "\<exists>a'. a = (CHR ''['' # t) @ a' \<and> x = a' @ (CHR ''['' # d # w) @ b"
proof -
  from e obtain us where
    "(CHR ''['' # t = a @ us \<and> us @ x = (CHR ''['' # d # w) @ b)
     \<or> ((CHR ''['' # t) @ us = a \<and> x = us @ (CHR ''['' # d # w) @ b)"
    unfolding append_eq_append_conv2 by blast
  then show ?thesis
  proof
    assume h: "CHR ''['' # t = a @ us \<and> us @ x = (CHR ''['' # d # w) @ b"
    show ?thesis
    proof (cases us)
      case Nil
      with h have "a = (CHR ''['' # t) @ []" and "x = [] @ (CHR ''['' # d # w) @ b"
        by simp_all
      then show ?thesis by blast
    next
      case us: (Cons u us')
      with h have u: "u = CHR ''[''" by simp
      show ?thesis
      proof (cases a)
        case Nil
        with h have "(CHR ''['' # t) @ x = (CHR ''['' # d # w) @ b" by simp
        then have "t @ x = d # (w @ b)" by simp
        with tn have "hd t = d" by (cases t) simp_all
        with d show ?thesis by simp
      next
        case (Cons a1 a2)
        with h have "t = a2 @ us" by simp
        then have "CHR ''['' \<in> set t" using u us by simp
        with t show ?thesis by simp
      qed
    qed
  next
    assume "(CHR ''['' # t) @ us = a \<and> x = us @ (CHR ''['' # d # w) @ b"
    then show ?thesis by blast
  qed
qed


lemma not_word_lbracket [simp]: "\<not> isWordChar CHR ''[''"
  by (simp add: isWordChar_def isLower_def isUpper_def isDigit_def)

lemma isType_no_lbracket: "isType T \<Longrightarrow> CHR ''['' \<notin> set T"
  by (auto simp: isType_def)

lemma token_Cons: "token T = CHR ''['' # (''REDACTED:'' @ T @ '']'')"
  by (simp add: token_def)

lemma closeTag_Cons: "closeTag T = CHR ''['' # CHR ''/'' # (''PII:'' @ T @ '']'')"
  by (simp add: closeTag_def)

lemma openTag_Cons: "openTag T = CHR ''['' # CHR ''P'' # (''II:'' @ T @ '']'')"
  by (simp add: openTag_def)

lemma token_closeTag:
  assumes "isType T'" and "token T' @ x = a @ closeTag T @ b"
  shows "\<exists>a'. a = token T' @ a' \<and> x = a' @ closeTag T @ b"
proof -
  have "CHR ''['' \<notin> set (''REDACTED:'' @ T' @ '']'')"
    using isType_no_lbracket [OF assms(1)] by simp
  moreover have "CHR ''/'' \<noteq> hd (''REDACTED:'' @ T' @ '']'')" by simp
  moreover have "''REDACTED:'' @ T' @ '']'' \<noteq> []" by simp
  ultimately show ?thesis
    using assms(2) unfolding token_Cons closeTag_Cons by (rule token_overlap)
qed

lemma token_openTag:
  assumes "isType T'" and "token T' @ x = a @ openTag T @ b"
  shows "\<exists>a'. a = token T' @ a' \<and> x = a' @ openTag T @ b"
proof -
  have "CHR ''['' \<notin> set (''REDACTED:'' @ T' @ '']'')"
    using isType_no_lbracket [OF assms(1)] by simp
  moreover have "CHR ''P'' \<noteq> hd (''REDACTED:'' @ T' @ '']'')" by simp
  moreover have "''REDACTED:'' @ T' @ '']'' \<noteq> []" by simp
  ultimately show ?thesis
    using assms(2) unfolding token_Cons openTag_Cons by (rule token_overlap)
qed

lemma closeTag_origin:
  assumes T: "isType T"
  shows "redactFrom prev s = a @ closeTag T @ b \<Longrightarrow> \<exists>a' b'. s = a' @ closeTag T @ b'"
proof (induction "length s" arbitrary: s prev a rule: less_induct)
  case less
  show ?case
  proof (cases s)
    case Nil
    with less.prems show ?thesis by (simp add: closeTag_def)
  next
    case (Cons c cs)
    show ?thesis
    proof (cases "hit s")
      case False
      then have R: "redactFrom prev s = c # redactFrom (Some c) cs"
        unfolding Cons by (rule redactFrom_miss)
      show ?thesis
      proof (cases a)
        case Nil
        have e: "closeTag T @ b = CHR ''['' # ((''/PII:'' @ T @ '']'') @ b)"
          by (simp add: closeTag_def)
        from less.prems [unfolded R Nil append_Nil e]
        have "c # redactFrom (Some c) cs = CHR ''['' # ((''/PII:'' @ T @ '']'') @ b)" .
        then have "c = CHR ''['' \<and> redactFrom (Some c) cs = (''/PII:'' @ T @ '']'') @ b"
          by (rule list.inject [THEN iffD1])
        then have c: "c = CHR ''[''" and r: "redactFrom (Some c) cs = (''/PII:'' @ T @ '']'') @ b"
          by blast+
        have "CHR ''['' \<notin> set (''/PII:'' @ T @ '']'')"
          using isType_no_lbracket [OF T] by simp
        from copy_prefix [OF this r] obtain s' where "cs = (''/PII:'' @ T @ '']'') @ s'"
          by blast
        then have "s = [] @ closeTag T @ s'"
          using c Cons by (simp add: closeTag_def)
        then show ?thesis by blast
      next
        case a: (Cons a1 a2)
        from less.prems [unfolded R a append_Cons]
        have "c # redactFrom (Some c) cs = a1 # (a2 @ closeTag T @ b)" .
        then have "c = a1 \<and> redactFrom (Some c) cs = a2 @ closeTag T @ b"
          by (rule list.inject [THEN iffD1])
        then have "redactFrom (Some c) cs = a2 @ closeTag T @ b" by blast
        moreover have "length cs < length s" using Cons by simp
        ultimately obtain a' b' where "cs = a' @ closeTag T @ b'"
          using less.hyps by blast
        then have "s = (c # a') @ closeTag T @ b'" using Cons by simp
        then show ?thesis by blast
      qed
    next
      case True
      from redactFrom_hit [OF True, of prev] obtain T' mid r p
        where T': "isType T'" and s: "s = openTag T' @ mid @ closeTag T' @ r"
          and R: "redactFrom prev s = token T' @ redactFrom p r"
        by blast
      from less.prems [unfolded R] token_closeTag [OF T']
      obtain a'' where "redactFrom p r = a'' @ closeTag T @ b" by blast
      moreover have "length r < length s" using s by (simp add: openTag_def)
      ultimately obtain a' b' where "r = a' @ closeTag T @ b'"
        using less.hyps by blast
      then have "s = (openTag T' @ mid @ closeTag T' @ a') @ closeTag T @ b'"
        using s by simp
      then show ?thesis by blast
    qed
  qed
qed

lemma no_hit_in_output:
  "redactFrom prev s = pre @ u \<Longrightarrow> \<not> hit u"
proof (induction "length s" arbitrary: s prev pre rule: less_induct)
  case less
  show ?case
  proof
    assume "hit u"
    then obtain T mid r0 where T: "isType T" and u: "u = openTag T @ mid @ closeTag T @ r0"
      unfolding hit_def by blast
    show False
    proof (cases s)
      case Nil
      with less.prems u show False by (simp add: openTag_def)
    next
      case (Cons c cs)
      show False
      proof (cases "hit s")
        case False
        then have R: "redactFrom prev s = c # redactFrom (Some c) cs"
          unfolding Cons by (rule redactFrom_miss)
        show False
        proof (cases pre)
          case Nil
          have e: "openTag T @ mid @ closeTag T @ r0
                  = CHR ''['' # ((''PII:'' @ T @ '']'') @ (mid @ closeTag T @ r0))"
            by (simp add: openTag_def)
          from less.prems [unfolded R Nil append_Nil u e]
          have "c # redactFrom (Some c) cs
                  = CHR ''['' # ((''PII:'' @ T @ '']'') @ (mid @ closeTag T @ r0))" .
          then have "c = CHR ''[''
              \<and> redactFrom (Some c) cs = (''PII:'' @ T @ '']'') @ (mid @ closeTag T @ r0)"
            by (rule list.inject [THEN iffD1])
          then have c: "c = CHR ''[''"
            and r: "redactFrom (Some c) cs = (''PII:'' @ T @ '']'') @ (mid @ closeTag T @ r0)"
            by blast+
          have "CHR ''['' \<notin> set (''PII:'' @ T @ '']'')"
            using isType_no_lbracket [OF T] by simp
          from copy_prefix [OF this r] obtain s' prev'
            where cs: "cs = (''PII:'' @ T @ '']'') @ s'"
              and "redactFrom prev' s' = mid @ closeTag T @ r0"
            by blast
          from closeTag_origin [OF T this(2)] obtain a' b' where "s' = a' @ closeTag T @ b'"
            by blast
          with cs c Cons have "s = openTag T @ a' @ closeTag T @ b'"
            by (simp add: openTag_def)
          with T have "hit s" unfolding hit_def by blast
          with False show False ..
        next
          case p: (Cons p1 p2)
          from less.prems [unfolded R p append_Cons]
          have "c # redactFrom (Some c) cs = p1 # (p2 @ u)" .
          then have "c = p1 \<and> redactFrom (Some c) cs = p2 @ u"
            by (rule list.inject [THEN iffD1])
          then have "redactFrom (Some c) cs = p2 @ u" by blast
          moreover have "length cs < length s" using Cons by simp
          ultimately have "\<not> hit u" using less.hyps by blast
          with \<open>hit u\<close> show False by blast
        qed
      next
        case True
        from redactFrom_hit [OF True, of prev] obtain T' mid' r p
          where T': "isType T'" and s: "s = openTag T' @ mid' @ closeTag T' @ r"
            and R: "redactFrom prev s = token T' @ redactFrom p r"
          by blast
        from less.prems [unfolded R u]
        have "token T' @ redactFrom p r = pre @ openTag T @ (mid @ closeTag T @ r0)" .
        from token_openTag [OF T' this]
        obtain a'' where "redactFrom p r = a'' @ u" unfolding u by blast
        moreover have "length r < length s" using s by (simp add: openTag_def)
        ultimately have "\<not> hit u" using less.hyps by blast
        with \<open>hit u\<close> show False by blast
      qed
    qed
  qed
qed

lemma redactFrom_no_hit:
  "(\<And>pre u. t = pre @ u \<Longrightarrow> \<not> hit u) \<Longrightarrow> redactFrom prev t = t"
proof (induction t arbitrary: prev)
  case Nil
  show ?case by simp
next
  case (Cons c cs)
  have "\<not> hit (c # cs)" using Cons.prems [of "[]" "c # cs"] by simp
  then have "redactFrom prev (c # cs) = c # redactFrom (Some c) cs"
    by (rule redactFrom_miss)
  moreover have "redactFrom (Some c) cs = cs"
  proof (rule Cons.IH)
    fix pre u assume "cs = pre @ u"
    then have "c # cs = (c # pre) @ u" by simp
    then show "\<not> hit u" by (rule Cons.prems)
  qed
  ultimately show ?case by simp
qed

text \<open>
  Claim C9. Redaction is idempotent: for every input text \<open>s\<close>, redacting the output of
  \<open>redactPII\<close> again changes nothing. The marker pattern matches no span of the output,
  so every character of it is copied.
\<close>

theorem redactPII_idempotent: "redactPII (redactPII s) = redactPII s"
  unfolding redactPII_def
  by (rule redactFrom_no_hit) (erule no_hit_in_output)

section \<open>The pre-transmission gate\<close>

lemma isDerived_not_binary:
  assumes "isDerived p"
  shows "\<not> isBinaryPath p"
proof -
  from assms obtain q where "p = q @ ''.safe.md'' \<or> p = q @ ''.quick.md''"
    unfolding isDerived_def endsWith_iff by blast
  then have "rev (map lowerChar p) = ''dm.efas.'' @ rev (map lowerChar q)
           \<or> rev (map lowerChar p) = ''dm.kciuq.'' @ rev (map lowerChar q)"
    by (auto simp: lowerChar_def isUpper_def)
  then show ?thesis
    unfolding isBinaryPath_def binaryExtensions_def endsWith_def
    by auto
qed

lemma walk_isDerived: "(p, t) \<in> set (walk dir es) \<Longrightarrow> isDerived p"
  by (induction dir es rule: walk.induct) (auto split: if_splits)

lemma checkPatterns_intro:
  "pat \<in> set pats \<Longrightarrow> matchAll (regex pat) None content \<noteq> [] \<Longrightarrow>
   \<not> isMarked content (ptype pat) \<Longrightarrow>
   finding pat (length (matchAll (regex pat) None content)) \<in> set (checkPatterns pats content)"
  by (induction pats) (auto simp: Let_def)

lemma checkPatterns_elim:
  "x \<in> set (checkPatterns pats content) \<Longrightarrow>
   \<exists>pat\<in>set pats. matchAll (regex pat) None content \<noteq> [] \<and> \<not> isMarked content (ptype pat)
      \<and> x = finding pat (length (matchAll (regex pat) None content))"
  by (induction pats) (auto simp: Let_def split: if_splits)

lemma detect_intro:
  "(file, text) \<in> set fs \<Longrightarrow> hasPII (checkFileForPII file text) \<Longrightarrow>
   (relative memoryDir file, findings (checkFileForPII file text)) \<in> set (detect memoryDir fs)"
  by (induction fs) (auto simp: Let_def)

lemma gate_blocks:
  assumes cfg: "privacy c = Some pr" "redact_pii pr"
    and f: "(file, Some content) \<in> set (getFilesToCheck memoryDir root)"
    and g: "\<not> includesStr file ''.git/''"
    and pat: "pat \<in> set PII_PATTERNS"
    and m: "matchAll (regex pat) None content \<noteq> []"
    and u: "\<not> isMarked content (ptype pat)"
  shows "exitCode (main_PrePush memoryDir True (Some c) root) = 2
       \<and> (\<exists>fs. (relative memoryDir file, fs) \<in> set (report (main_PrePush memoryDir True (Some c) root))
             \<and> finding pat (length (matchAll (regex pat) None content)) \<in> set fs)"
proof -
  from f have "isDerived file"
    by (auto simp: getFilesToCheck_def split: option.splits dest: walk_isDerived)
  then have nb: "\<not> isBinaryPath file" by (rule isDerived_not_binary)
  have fin: "finding pat (length (matchAll (regex pat) None content))
               \<in> set (checkPatterns PII_PATTERNS content)"
    using pat m u by (rule checkPatterns_intro)
  then have ne: "checkPatterns PII_PATTERNS content \<noteq> []" by auto
  have res: "checkFileForPII file (Some content)
           = \<lparr>hasPII = True, findings = checkPatterns PII_PATTERNS content\<rparr>"
    using nb g ne by (simp add: checkFileForPII_def Let_def)
  then have d: "(relative memoryDir file, checkPatterns PII_PATTERNS content)
             \<in> set (detect memoryDir (getFilesToCheck memoryDir root))"
    using detect_intro [OF f, of memoryDir] by simp
  then have dn: "detect memoryDir (getFilesToCheck memoryDir root) \<noteq> []" by auto
  from f have fn: "getFilesToCheck memoryDir root \<noteq> []" by auto
  have "main_PrePush memoryDir True (Some c) root
      = \<lparr>exitCode = 2, report = detect memoryDir (getFilesToCheck memoryDir root)\<rparr>"
    using cfg dn fn by (simp add: main_PrePush_def Let_def)
  with d fin show ?thesis by auto
qed

lemma upper_email: "toUpperCase ''email'' = ''EMAIL''"
  by code_simp

lemma upper_apiKey: "toUpperCase ''apiKey'' = ''APIKEY''"
  by code_simp

lemma isMarked_email:
  "isMarked content (ptype emailPattern)
     \<longleftrightarrow> includesStr content ''[PII:EMAIL]'' \<or> includesStr content ''[REDACTED:EMAIL]''"
  by (simp add: isMarked_def emailPattern_def upper_email)

lemma isMarked_apiKey:
  "isMarked content (ptype apiKeyPattern)
     \<longleftrightarrow> includesStr content ''[PII:APIKEY]'' \<or> includesStr content ''[REDACTED:APIKEY]''"
  by (simp add: isMarked_def apiKeyPattern_def upper_apiKey)

lemma email_finding_only_email:
  assumes "pat \<in> set PII_PATTERNS" and "finding emailPattern n = finding pat k"
  shows "pat = emailPattern"
  using assms
  by (auto simp: PII_PATTERNS_def finding_def emailPattern_def phonePattern_def apiKeyPattern_def
       awsKeyPattern_def jwtPattern_def githubTokenPattern_def creditCardPattern_def
       ssnPattern_def)

text \<open>
  Claim C2, as amended. The gate correlates a match with the markers file by file: for
  every derived artifact that the gate scans (a file that \<open>getFilesToCheck\<close> returns,
  whose path does not include \<open>.git/\<close> and whose text can be read), when the
  configuration enables \<open>redact_pii\<close>: if the text has a match of the email pattern and
  includes neither \<open>[PII:EMAIL]\<close> nor \<open>[REDACTED:EMAIL]\<close> anywhere, the gate exits with
  status 2 and its report names the file with the email finding; if the text includes
  \<open>[REDACTED:EMAIL]\<close>, no email finding is reported for it; and the token
  \<open>[REDACTED:EMAIL]\<close> itself has no match of the email pattern.
\<close>

theorem gate_email:
  "(privacy c = Some pr \<and> redact_pii pr
      \<and> (file, Some content) \<in> set (getFilesToCheck memoryDir root)
      \<and> \<not> includesStr file ''.git/''
      \<and> matchAll (regex emailPattern) None content \<noteq> []
      \<and> \<not> includesStr content ''[PII:EMAIL]'' \<and> \<not> includesStr content ''[REDACTED:EMAIL]''
    \<longrightarrow> exitCode (main_PrePush memoryDir True (Some c) root) = 2
       \<and> (\<exists>fs. (relative memoryDir file, fs) \<in> set (report (main_PrePush memoryDir True (Some c) root))
             \<and> finding emailPattern (length (matchAll (regex emailPattern) None content)) \<in> set fs))
   \<and> (includesStr content ''[REDACTED:EMAIL]''
    \<longrightarrow> (\<forall>n. finding emailPattern n \<notin> set (findings (checkFileForPII file (Some content)))))
   \<and> matchAll (regex emailPattern) None ''[REDACTED:EMAIL]'' = []"
proof (intro conjI impI)
  assume a: "privacy c = Some pr \<and> redact_pii pr
      \<and> (file, Some content) \<in> set (getFilesToCheck memoryDir root)
      \<and> \<not> includesStr file ''.git/''
      \<and> matchAll (regex emailPattern) None content \<noteq> []
      \<and> \<not> includesStr content ''[PII:EMAIL]'' \<and> \<not> includesStr content ''[REDACTED:EMAIL]''"
  have e: "emailPattern \<in> set PII_PATTERNS" by (simp add: PII_PATTERNS_def)
  from a have u: "\<not> isMarked content (ptype emailPattern)" by (simp add: isMarked_email)
  from a have h: "privacy c = Some pr" "redact_pii pr"
      "(file, Some content) \<in> set (getFilesToCheck memoryDir root)"
      "\<not> includesStr file ''.git/''"
      "matchAll (regex emailPattern) None content \<noteq> []"
    by blast+
  from gate_blocks [OF h(1-4) e h(5) u]
  show "exitCode (main_PrePush memoryDir True (Some c) root) = 2"
    and "\<exists>fs. (relative memoryDir file, fs) \<in> set (report (main_PrePush memoryDir True (Some c) root))
             \<and> finding emailPattern (length (matchAll (regex emailPattern) None content)) \<in> set fs"
    by blast+
next
  assume r: "includesStr content ''[REDACTED:EMAIL]''"
  show "\<forall>n. finding emailPattern n \<notin> set (findings (checkFileForPII file (Some content)))"
  proof (intro allI notI)
    fix n assume "finding emailPattern n \<in> set (findings (checkFileForPII file (Some content)))"
    then have "finding emailPattern n \<in> set (checkPatterns PII_PATTERNS content)"
      by (auto simp: checkFileForPII_def Let_def split: if_splits)
    from checkPatterns_elim [OF this] obtain pat where
      p: "pat \<in> set PII_PATTERNS" "\<not> isMarked content (ptype pat)"
         "finding emailPattern n = finding pat (length (matchAll (regex pat) None content))"
      by blast
    from email_finding_only_email [OF p(1) p(3)] p(2) r show False
      by (simp add: isMarked_email)
  qed
next
  show "matchAll (regex emailPattern) None ''[REDACTED:EMAIL]'' = []"
    by code_simp
qed

text \<open>The theorem at a file with one bare address, and at a file with the token.\<close>

theorem gate_email_witness:
  "exitCode (main_PrePush ''/home/u/.claude-memory-cloud'' True (Some cfgOn)
       (Some [FileNode ''notes.safe.md'' (Some ''Backup: bob@example.com'')])) = 2
   \<and> (\<exists>fs. (''notes.safe.md'', fs) \<in> set (report (main_PrePush ''/home/u/.claude-memory-cloud'' True (Some cfgOn)
       (Some [FileNode ''notes.safe.md'' (Some ''Backup: bob@example.com'')])))
         \<and> ''Email address (1 occurrence)'' \<in> set fs)
   \<and> (\<forall>n. finding emailPattern n \<notin> set (findings (checkFileForPII ''/m/notes.safe.md'' (Some ''Contact: [REDACTED:EMAIL]''))))"
proof -
  have m: "matchAll (regex emailPattern) None ''Backup: bob@example.com'' = [''bob@example.com'']"
    by code_simp
  have h: "privacy cfgOn = Some \<lparr>redact_pii = True\<rparr> \<and> redact_pii \<lparr>redact_pii = True\<rparr>
      \<and> (''/home/u/.claude-memory-cloud/notes.safe.md'', Some ''Backup: bob@example.com'')
           \<in> set (getFilesToCheck ''/home/u/.claude-memory-cloud'' (Some [FileNode ''notes.safe.md'' (Some ''Backup: bob@example.com'')]))
      \<and> \<not> includesStr ''/home/u/.claude-memory-cloud/notes.safe.md'' ''.git/''
      \<and> matchAll (regex emailPattern) None ''Backup: bob@example.com'' \<noteq> []
      \<and> \<not> includesStr ''Backup: bob@example.com'' ''[PII:EMAIL]''
      \<and> \<not> includesStr ''Backup: bob@example.com'' ''[REDACTED:EMAIL]''"
    unfolding m by (simp add: cfgOn_def getFilesToCheck_def joinPath_def isDerived_def endsWith_def)
  have f: "finding emailPattern (length (matchAll (regex emailPattern) None ''Backup: bob@example.com''))
             = ''Email address (1 occurrence)''"
    unfolding m by code_simp
  have rel: "relative ''/home/u/.claude-memory-cloud'' ''/home/u/.claude-memory-cloud/notes.safe.md'' = ''notes.safe.md''"
    by (simp add: relative_def)
  have i: "includesStr ''Contact: [REDACTED:EMAIL]'' ''[REDACTED:EMAIL]''" by simp
  from gate_email [of cfgOn "\<lparr>redact_pii = True\<rparr>" "''/home/u/.claude-memory-cloud/notes.safe.md''"
      "''Backup: bob@example.com''" "''/home/u/.claude-memory-cloud''"
      "Some [FileNode ''notes.safe.md'' (Some ''Backup: bob@example.com'')]"] h
  have 1: "exitCode (main_PrePush ''/home/u/.claude-memory-cloud'' True (Some cfgOn)
       (Some [FileNode ''notes.safe.md'' (Some ''Backup: bob@example.com'')])) = 2
   \<and> (\<exists>fs. (''notes.safe.md'', fs) \<in> set (report (main_PrePush ''/home/u/.claude-memory-cloud'' True (Some cfgOn)
       (Some [FileNode ''notes.safe.md'' (Some ''Backup: bob@example.com'')])))
         \<and> ''Email address (1 occurrence)'' \<in> set fs)"
    unfolding f rel by blast
  from gate_email [of _ _ "''/m/notes.safe.md''" "''Contact: [REDACTED:EMAIL]''"] i
  have 2: "\<forall>n. finding emailPattern n \<notin> set (findings (checkFileForPII ''/m/notes.safe.md'' (Some ''Contact: [REDACTED:EMAIL]'')))"
    by blast
  from 1 2 show ?thesis by blast
qed

text \<open>
  Claim C2 as stated fails: an artifact with a bare address on one line and a
  \<open>[REDACTED:EMAIL]\<close> token on another passes the gate.
\<close>

theorem gate_email_counterexample:
  "matchAll (regex emailPattern) None (''Contact: [REDACTED:EMAIL]'' @ [nl] @ ''Backup: bob@example.com'')
      = [''bob@example.com'']
   \<and> main_PrePush ''/home/u/.claude-memory-cloud'' True (Some cfgOn)
       (Some [FileNode ''notes.safe.md''
                (Some (''Contact: [REDACTED:EMAIL]'' @ [nl] @ ''Backup: bob@example.com''))])
      = \<lparr>exitCode = 0, report = []\<rparr>"
  by code_simp


lemma description_PII_PATTERNS:
  "description emailPattern = ''Email address''"
  "description phonePattern = ''Phone number''"
  "description apiKeyPattern = ''OpenAI API key''"
  "description awsKeyPattern = ''AWS access key''"
  "description jwtPattern = ''JWT token''"
  "description githubTokenPattern = ''GitHub personal access token''"
  "description creditCardPattern = ''Credit card number''"
  "description ssnPattern = ''Social security number''"
  by (simp_all add: emailPattern_def phonePattern_def apiKeyPattern_def awsKeyPattern_def
        jwtPattern_def githubTokenPattern_def creditCardPattern_def ssnPattern_def)

lemma pattern_of_description:
  assumes "pat \<in> set PII_PATTERNS"
  shows "description pat \<noteq> []"
    and "pat = (if hd (description pat) = CHR ''E'' then emailPattern
                else if hd (description pat) = CHR ''P'' then phonePattern
                else if hd (description pat) = CHR ''O'' then apiKeyPattern
                else if hd (description pat) = CHR ''A'' then awsKeyPattern
                else if hd (description pat) = CHR ''J'' then jwtPattern
                else if hd (description pat) = CHR ''G'' then githubTokenPattern
                else if hd (description pat) = CHR ''C'' then creditCardPattern
                else ssnPattern)"
proof -
  from assms consider "pat = emailPattern" | "pat = phonePattern" | "pat = apiKeyPattern"
    | "pat = awsKeyPattern" | "pat = jwtPattern" | "pat = githubTokenPattern"
    | "pat = creditCardPattern" | "pat = ssnPattern"
    unfolding PII_PATTERNS_def by auto
  then show "description pat \<noteq> []"
    by cases (simp_all add: description_PII_PATTERNS)
  from assms consider "pat = emailPattern" | "pat = phonePattern" | "pat = apiKeyPattern"
    | "pat = awsKeyPattern" | "pat = jwtPattern" | "pat = githubTokenPattern"
    | "pat = creditCardPattern" | "pat = ssnPattern"
    unfolding PII_PATTERNS_def by auto
  then show "pat = (if hd (description pat) = CHR ''E'' then emailPattern
                else if hd (description pat) = CHR ''P'' then phonePattern
                else if hd (description pat) = CHR ''O'' then apiKeyPattern
                else if hd (description pat) = CHR ''A'' then awsKeyPattern
                else if hd (description pat) = CHR ''J'' then jwtPattern
                else if hd (description pat) = CHR ''G'' then githubTokenPattern
                else if hd (description pat) = CHR ''C'' then creditCardPattern
                else ssnPattern)"
    by cases (simp_all add: description_PII_PATTERNS)
qed

lemma hd_finding: "description pat \<noteq> [] \<Longrightarrow> hd (finding pat n) = hd (description pat)"
  by (simp add: finding_def)

lemma finding_pattern:
  assumes p: "pat \<in> set PII_PATTERNS" and p': "pat' \<in> set PII_PATTERNS"
    and f: "finding pat n = finding pat' k"
  shows "pat = pat'"
proof -
  have "hd (description pat) = hd (finding pat n)"
    using pattern_of_description(1) [OF p] by (simp add: hd_finding)
  also have "\<dots> = hd (description pat')"
    unfolding f using pattern_of_description(1) [OF p'] by (simp add: hd_finding)
  finally have h: "hd (description pat) = hd (description pat')" .
  define G where "G = (\<lambda>c. if c = CHR ''E'' then emailPattern
                else if c = CHR ''P'' then phonePattern
                else if c = CHR ''O'' then apiKeyPattern
                else if c = CHR ''A'' then awsKeyPattern
                else if c = CHR ''J'' then jwtPattern
                else if c = CHR ''G'' then githubTokenPattern
                else if c = CHR ''C'' then creditCardPattern
                else ssnPattern)"
  have a: "pat = G (hd (description pat'))"
    using pattern_of_description(2) [OF p] unfolding G_def h .
  have b: "pat' = G (hd (description pat'))"
    using pattern_of_description(2) [OF p'] unfolding G_def .
  show ?thesis
    by (rule trans [OF a b [symmetric]])
qed

lemma checkFileForPII_scanned:
  "\<not> isBinaryPath file \<Longrightarrow> \<not> includesStr file ''.git/'' \<Longrightarrow>
   findings (checkFileForPII file (Some content)) = checkPatterns PII_PATTERNS content"
  by (simp add: checkFileForPII_def Let_def)

lemma findings_subset:
  "set (findings (checkFileForPII file (Some content))) \<subseteq> set (checkPatterns PII_PATTERNS content)"
  by (auto simp: checkFileForPII_def Let_def split: if_splits)

lemma finding_reported_iff:
  assumes pat: "pat \<in> set PII_PATTERNS"
    and nb: "\<not> isBinaryPath file" and g: "\<not> includesStr file ''.git/''"
  shows "(\<exists>n. finding pat n \<in> set (findings (checkFileForPII file (Some content))))
         \<longleftrightarrow> matchAll (regex pat) None content \<noteq> [] \<and> \<not> isMarked content (ptype pat)"
proof
  assume "\<exists>n. finding pat n \<in> set (findings (checkFileForPII file (Some content)))"
  then obtain n where "finding pat n \<in> set (checkPatterns PII_PATTERNS content)"
    using findings_subset by blast
  from checkPatterns_elim [OF this] obtain pat' where
    p: "pat' \<in> set PII_PATTERNS" "matchAll (regex pat') None content \<noteq> []"
       "\<not> isMarked content (ptype pat')"
       "finding pat n = finding pat' (length (matchAll (regex pat') None content))"
    by blast
  from finding_pattern [OF pat p(1) p(4)] have "pat = pat'" .
  with p(2,3) show "matchAll (regex pat) None content \<noteq> [] \<and> \<not> isMarked content (ptype pat)"
    by simp
next
  assume "matchAll (regex pat) None content \<noteq> [] \<and> \<not> isMarked content (ptype pat)"
  then have "finding pat (length (matchAll (regex pat) None content))
               \<in> set (checkPatterns PII_PATTERNS content)"
    using pat by (simp add: checkPatterns_intro)
  then show "\<exists>n. finding pat n \<in> set (findings (checkFileForPII file (Some content)))"
    unfolding checkFileForPII_scanned [OF nb g] by blast
qed

text \<open>
  Claim C10. The gate correlates a match with the markers by the key of the pattern in
  upper case (\<open>EMAIL\<close>, \<open>PHONE\<close>, \<open>APIKEY\<close>, \<open>AWSKEY\<close>, \<open>JWT\<close>, \<open>GITHUBTOKEN\<close>,
  \<open>CREDITCARD\<close>, \<open>SSN\<close>): for every pattern, a file that the gate reads gets a finding
  of the pattern exactly when its text has a match of the pattern and includes neither
  \<open>[PII:KEY]\<close> nor \<open>[REDACTED:KEY]\<close> for that upper-case key. For the OpenAI key pattern
  the tokens are \<open>[PII:APIKEY]\<close> and \<open>[REDACTED:APIKEY]\<close>: either of them anywhere in the
  text suppresses the finding, and \<open>[PII:API]\<close> and \<open>[REDACTED:API]\<close> do not, so a
  scanned file with a match of the OpenAI key pattern and a \<open>[PII:API]\<close> or
  \<open>[REDACTED:API]\<close> token, but neither \<open>[PII:APIKEY]\<close> nor \<open>[REDACTED:APIKEY]\<close>, is
  reported and the gate exits with status 2.
\<close>

theorem gate_apiKey_internal_name:
  "map (toUpperCase \<circ> ptype) PII_PATTERNS
     = [''EMAIL'', ''PHONE'', ''APIKEY'', ''AWSKEY'', ''JWT'', ''GITHUBTOKEN'', ''CREDITCARD'', ''SSN'']
   \<and> (\<forall>pat\<in>set PII_PATTERNS.
        \<not> isBinaryPath file \<and> \<not> includesStr file ''.git/''
        \<longrightarrow> ((\<exists>n. finding pat n \<in> set (findings (checkFileForPII file (Some content))))
             \<longleftrightarrow> matchAll (regex pat) None content \<noteq> []
                 \<and> \<not> includesStr content (''[PII:'' @ toUpperCase (ptype pat) @ '']'')
                 \<and> \<not> includesStr content (''[REDACTED:'' @ toUpperCase (ptype pat) @ '']'')))
   \<and> (\<not> isBinaryPath file \<and> \<not> includesStr file ''.git/''
      \<longrightarrow> ((\<exists>n. finding apiKeyPattern n \<in> set (findings (checkFileForPII file (Some content))))
           \<longleftrightarrow> matchAll (regex apiKeyPattern) None content \<noteq> []
               \<and> \<not> includesStr content ''[PII:APIKEY]''
               \<and> \<not> includesStr content ''[REDACTED:APIKEY]''))
   \<and> (includesStr content ''[PII:APIKEY]'' \<or> includesStr content ''[REDACTED:APIKEY]''
      \<longrightarrow> (\<forall>n. finding apiKeyPattern n \<notin> set (findings (checkFileForPII file (Some content)))))
   \<and> (privacy c = Some pr \<and> redact_pii pr
      \<and> (file, Some content) \<in> set (getFilesToCheck memoryDir root)
      \<and> \<not> includesStr file ''.git/''
      \<and> matchAll (regex apiKeyPattern) None content \<noteq> []
      \<and> (includesStr content ''[PII:API]'' \<or> includesStr content ''[REDACTED:API]'')
      \<and> \<not> includesStr content ''[PII:APIKEY]'' \<and> \<not> includesStr content ''[REDACTED:APIKEY]''
    \<longrightarrow> exitCode (main_PrePush memoryDir True (Some c) root) = 2
       \<and> (\<exists>fs. (relative memoryDir file, fs) \<in> set (report (main_PrePush memoryDir True (Some c) root))
             \<and> finding apiKeyPattern (length (matchAll (regex apiKeyPattern) None content)) \<in> set fs))"
proof -
  have e: "apiKeyPattern \<in> set PII_PATTERNS" by (simp add: PII_PATTERNS_def)
  have 1: "map (toUpperCase \<circ> ptype) PII_PATTERNS
     = [''EMAIL'', ''PHONE'', ''APIKEY'', ''AWSKEY'', ''JWT'', ''GITHUBTOKEN'', ''CREDITCARD'', ''SSN'']"
    by code_simp
  have 2: "\<forall>pat\<in>set PII_PATTERNS.
        \<not> isBinaryPath file \<and> \<not> includesStr file ''.git/''
        \<longrightarrow> ((\<exists>n. finding pat n \<in> set (findings (checkFileForPII file (Some content))))
             \<longleftrightarrow> matchAll (regex pat) None content \<noteq> []
                 \<and> \<not> includesStr content (''[PII:'' @ toUpperCase (ptype pat) @ '']'')
                 \<and> \<not> includesStr content (''[REDACTED:'' @ toUpperCase (ptype pat) @ '']''))"
    using finding_reported_iff [of _ "file" "content"]
    unfolding isMarked_def by blast
  have 3: "\<not> isBinaryPath file \<and> \<not> includesStr file ''.git/''
      \<longrightarrow> ((\<exists>n. finding apiKeyPattern n \<in> set (findings (checkFileForPII file (Some content))))
           \<longleftrightarrow> matchAll (regex apiKeyPattern) None content \<noteq> []
               \<and> \<not> includesStr content ''[PII:APIKEY]''
               \<and> \<not> includesStr content ''[REDACTED:APIKEY]'')"
    using finding_reported_iff [OF e, of "file" "content"]
    unfolding isMarked_apiKey by blast
  have 4: "includesStr content ''[PII:APIKEY]'' \<or> includesStr content ''[REDACTED:APIKEY]''
      \<longrightarrow> (\<forall>n. finding apiKeyPattern n \<notin> set (findings (checkFileForPII file (Some content))))"
  proof (intro impI allI notI)
    fix n
    assume r: "includesStr content ''[PII:APIKEY]'' \<or> includesStr content ''[REDACTED:APIKEY]''"
    assume "finding apiKeyPattern n \<in> set (findings (checkFileForPII file (Some content)))"
    then have "finding apiKeyPattern n \<in> set (checkPatterns PII_PATTERNS content)"
      using findings_subset by blast
    from checkPatterns_elim [OF this] obtain pat where
      p: "pat \<in> set PII_PATTERNS" "\<not> isMarked content (ptype pat)"
         "finding apiKeyPattern n = finding pat (length (matchAll (regex pat) None content))"
      by blast
    from finding_pattern [OF e p(1) p(3)] p(2) r show False
      by (simp add: isMarked_apiKey)
  qed
  have 5: "privacy c = Some pr \<and> redact_pii pr
      \<and> (file, Some content) \<in> set (getFilesToCheck memoryDir root)
      \<and> \<not> includesStr file ''.git/''
      \<and> matchAll (regex apiKeyPattern) None content \<noteq> []
      \<and> (includesStr content ''[PII:API]'' \<or> includesStr content ''[REDACTED:API]'')
      \<and> \<not> includesStr content ''[PII:APIKEY]'' \<and> \<not> includesStr content ''[REDACTED:APIKEY]''
    \<longrightarrow> exitCode (main_PrePush memoryDir True (Some c) root) = 2
       \<and> (\<exists>fs. (relative memoryDir file, fs) \<in> set (report (main_PrePush memoryDir True (Some c) root))
             \<and> finding apiKeyPattern (length (matchAll (regex apiKeyPattern) None content)) \<in> set fs)"
  proof (intro impI)
    assume a: "privacy c = Some pr \<and> redact_pii pr
      \<and> (file, Some content) \<in> set (getFilesToCheck memoryDir root)
      \<and> \<not> includesStr file ''.git/''
      \<and> matchAll (regex apiKeyPattern) None content \<noteq> []
      \<and> (includesStr content ''[PII:API]'' \<or> includesStr content ''[REDACTED:API]'')
      \<and> \<not> includesStr content ''[PII:APIKEY]'' \<and> \<not> includesStr content ''[REDACTED:APIKEY]''"
    from a have u: "\<not> isMarked content (ptype apiKeyPattern)" by (simp add: isMarked_apiKey)
    from a have h: "privacy c = Some pr" "redact_pii pr"
        "(file, Some content) \<in> set (getFilesToCheck memoryDir root)"
        "\<not> includesStr file ''.git/''"
        "matchAll (regex apiKeyPattern) None content \<noteq> []"
      by blast+
    from gate_blocks [OF h(1-4) e h(5) u]
    show "exitCode (main_PrePush memoryDir True (Some c) root) = 2
       \<and> (\<exists>fs. (relative memoryDir file, fs) \<in> set (report (main_PrePush memoryDir True (Some c) root))
             \<and> finding apiKeyPattern (length (matchAll (regex apiKeyPattern) None content)) \<in> set fs)" .
  qed
  from 1 2 3 4 5 show ?thesis
    by (intro conjI)
qed

text \<open>
  The theorem at a file with a \<open>[REDACTED:API]\<close> token and a bare key, which is
  reported, and at the file with the token \<open>[REDACTED:APIKEY]\<close> instead, which is not.
\<close>

theorem gate_apiKey_internal_name_witness:
  "exitCode (main_PrePush ''/home/u/.claude-memory-cloud'' True (Some cfgOn)
       (Some [FileNode ''keys.safe.md'' (Some ''old [REDACTED:API] new sk-abcdefghijklmnopqrstuvwx'')])) = 2
   \<and> (\<exists>fs. (''keys.safe.md'', fs) \<in> set (report (main_PrePush ''/home/u/.claude-memory-cloud'' True (Some cfgOn)
       (Some [FileNode ''keys.safe.md'' (Some ''old [REDACTED:API] new sk-abcdefghijklmnopqrstuvwx'')])))
         \<and> ''OpenAI API key (1 occurrence)'' \<in> set fs)
   \<and> (\<exists>n. finding apiKeyPattern n \<in> set (findings (checkFileForPII ''/m/keys.safe.md''
              (Some ''old [REDACTED:API] new sk-abcdefghijklmnopqrstuvwx''))))
   \<and> (\<forall>n. finding apiKeyPattern n \<notin> set (findings (checkFileForPII ''/m/keys.safe.md''
              (Some ''old [REDACTED:APIKEY] new sk-abcdefghijklmnopqrstuvwx''))))
   \<and> (\<forall>n. finding apiKeyPattern n \<notin> set (findings (checkFileForPII ''/m/keys.safe.md''
              (Some ''old [PII:APIKEY] new sk-abcdefghijklmnopqrstuvwx''))))"
proof -
  define A where "A = ''old [REDACTED:API] new sk-abcdefghijklmnopqrstuvwx''"
  define B where "B = ''old [REDACTED:APIKEY] new sk-abcdefghijklmnopqrstuvwx''"
  define P where "P = ''old [PII:APIKEY] new sk-abcdefghijklmnopqrstuvwx''"
  have m: "matchAll (regex apiKeyPattern) None A = [''sk-abcdefghijklmnopqrstuvwx'']"
    unfolding A_def by code_simp
  have h: "privacy cfgOn = Some \<lparr>redact_pii = True\<rparr> \<and> redact_pii \<lparr>redact_pii = True\<rparr>
      \<and> (''/home/u/.claude-memory-cloud/keys.safe.md'', Some A)
           \<in> set (getFilesToCheck ''/home/u/.claude-memory-cloud'' (Some [FileNode ''keys.safe.md'' (Some A)]))
      \<and> \<not> includesStr ''/home/u/.claude-memory-cloud/keys.safe.md'' ''.git/''
      \<and> matchAll (regex apiKeyPattern) None A \<noteq> []
      \<and> (includesStr A ''[PII:API]'' \<or> includesStr A ''[REDACTED:API]'')
      \<and> \<not> includesStr A ''[PII:APIKEY]''
      \<and> \<not> includesStr A ''[REDACTED:APIKEY]''"
    unfolding m
    by (simp add: A_def cfgOn_def getFilesToCheck_def joinPath_def isDerived_def endsWith_def)
  have f: "finding apiKeyPattern (length (matchAll (regex apiKeyPattern) None A))
             = ''OpenAI API key (1 occurrence)''"
    unfolding m by code_simp
  have rel: "relative ''/home/u/.claude-memory-cloud'' ''/home/u/.claude-memory-cloud/keys.safe.md'' = ''keys.safe.md''"
    by (simp add: relative_def)
  from gate_apiKey_internal_name [of "''/home/u/.claude-memory-cloud/keys.safe.md''" A
      cfgOn "\<lparr>redact_pii = True\<rparr>" "''/home/u/.claude-memory-cloud''"
      "Some [FileNode ''keys.safe.md'' (Some A)]"] h
  have 1: "exitCode (main_PrePush ''/home/u/.claude-memory-cloud'' True (Some cfgOn)
       (Some [FileNode ''keys.safe.md'' (Some A)])) = 2
   \<and> (\<exists>fs. (''keys.safe.md'', fs) \<in> set (report (main_PrePush ''/home/u/.claude-memory-cloud'' True (Some cfgOn)
       (Some [FileNode ''keys.safe.md'' (Some A)])))
         \<and> ''OpenAI API key (1 occurrence)'' \<in> set fs)"
    unfolding f rel by blast
  have s: "\<not> isBinaryPath ''/m/keys.safe.md'' \<and> \<not> includesStr ''/m/keys.safe.md'' ''.git/''"
    by code_simp
  have e: "apiKeyPattern \<in> set PII_PATTERNS" by (simp add: PII_PATTERNS_def)
  have u: "toUpperCase (ptype apiKeyPattern) = ''APIKEY''"
    by (simp add: apiKeyPattern_def upper_apiKey)
  have a: "matchAll (regex apiKeyPattern) None A \<noteq> []
           \<and> \<not> includesStr A (''[PII:'' @ toUpperCase (ptype apiKeyPattern) @ '']'')
           \<and> \<not> includesStr A (''[REDACTED:'' @ toUpperCase (ptype apiKeyPattern) @ '']'')"
    unfolding m u by (simp add: A_def)
  from gate_apiKey_internal_name [of "''/m/keys.safe.md''" A] e s a
  have 2: "\<exists>n. finding apiKeyPattern n \<in> set (findings (checkFileForPII ''/m/keys.safe.md'' (Some A)))"
    by blast
  have b: "includesStr B ''[PII:APIKEY]'' \<or> includesStr B ''[REDACTED:APIKEY]''"
    by (simp add: B_def)
  from gate_apiKey_internal_name [of "''/m/keys.safe.md''" B] b
  have 3: "\<forall>n. finding apiKeyPattern n \<notin> set (findings (checkFileForPII ''/m/keys.safe.md'' (Some B)))"
    by blast
  have p: "includesStr P ''[PII:APIKEY]'' \<or> includesStr P ''[REDACTED:APIKEY]''"
    by (simp add: P_def)
  from gate_apiKey_internal_name [of "''/m/keys.safe.md''" P] p
  have 4: "\<forall>n. finding apiKeyPattern n \<notin> set (findings (checkFileForPII ''/m/keys.safe.md'' (Some P)))"
    by blast
  from 1 2 3 4 show ?thesis
    unfolding A_def B_def P_def by blast
qed

section \<open>The conflict resolver\<close>

lemma removeFirst_prefix: "p \<noteq> [] \<Longrightarrow> removeFirst (p @ r) p = r"
  by (cases p) simp_all

lemma includesStr_self [simp]: "includesStr s s"
  by (cases s) (simp_all add: startsWith_iff)

lemma resolveFile_True_content:
  assumes "resolveFile env st filePath = (True, st')"
    and "files st filePath = Some content" and "extractConflict content = Some m"
  shows "files st' filePath
           = Some (if fst (resolveByTimestamp (envNewDate env) m) = Local then local m else remote m)
         \<and> filePath \<in> set (staged st')"
  using assms
  by (auto simp: resolveFile_def Let_def split: if_splits)

lemma resolveFile_archive_fails:
  "(\<And>e. \<not> envArchiveOk env e) \<Longrightarrow> resolveFile env st filePath = (False, st)"
  by (simp add: resolveFile_def Let_def split: option.splits)

text \<open>
  Claim C3. For the two bodies of a conflict, with the timestamps that
  \<open>extractTimestamp\<close> yields: when both bodies yield one, remote wins exactly when the
  remote date is later than the local one by JavaScript's \<open>>\<close> on dates (\<open>dateGt\<close>:
  the comparison of the time values, false for an invalid date), so equal timestamps
  select local; when only one body yields a timestamp, that body wins; when neither
  does, local wins. For a non-critical file that \<open>resolveFile\<close> resolves, the body
  written is the body so selected.
\<close>

theorem resolveByTimestamp_rule:
  "(extractTimestamp newDate (local m) = Some l \<and> extractTimestamp newDate (remote m) = Some r
      \<longrightarrow> fst (resolveByTimestamp newDate m) = (if dateGt r l then Remote else Local))
   \<and> (extractTimestamp newDate (local m) = Some l \<and> extractTimestamp newDate (remote m) = Some l
      \<longrightarrow> fst (resolveByTimestamp newDate m) = Local)
   \<and> (extractTimestamp newDate (local m) = None \<and> extractTimestamp newDate (remote m) = Some r
      \<longrightarrow> fst (resolveByTimestamp newDate m) = Remote)
   \<and> (extractTimestamp newDate (local m) = Some l \<and> extractTimestamp newDate (remote m) = None
      \<longrightarrow> fst (resolveByTimestamp newDate m) = Local)
   \<and> (extractTimestamp newDate (local m) = None \<and> extractTimestamp newDate (remote m) = None
      \<longrightarrow> fst (resolveByTimestamp newDate m) = Local)
   \<and> dateGt (Date x) (Date y) = (y < x)
   \<and> (\<not> requiresManualResolution (envMemoryDir env) filePath
       \<and> files st filePath = Some content \<and> extractConflict content = Some m
       \<and> resolveFile env st filePath = (True, st')
      \<longrightarrow> files st' filePath
            = Some (if fst (resolveByTimestamp (envNewDate env) m) = Local then local m else remote m))"
proof (intro conjI impI)
  assume "extractTimestamp newDate (local m) = Some l \<and> extractTimestamp newDate (remote m) = Some l"
  then show "fst (resolveByTimestamp newDate m) = Local"
    by (cases l) (simp_all add: resolveByTimestamp_def dateGt_def)
next
  assume "\<not> requiresManualResolution (envMemoryDir env) filePath
       \<and> files st filePath = Some content \<and> extractConflict content = Some m
       \<and> resolveFile env st filePath = (True, st')"
  then show "files st' filePath
            = Some (if fst (resolveByTimestamp (envNewDate env) m) = Local then local m else remote m)"
    using resolveFile_True_content by blast
qed (simp_all add: resolveByTimestamp_def dateGt_def)

text \<open>The rule at concrete bodies, one per case, and at the file of the scenario.\<close>

theorem resolveByTimestamp_rule_witness:
  "fst (resolveByTimestamp exampleDate
          \<lparr>local = ''last_updated: 2026-01-10T14:00:00'', remote = ''2026-01-10T15:30:00 B''\<rparr>) = Remote
   \<and> fst (resolveByTimestamp exampleDate
          \<lparr>local = ''2026-01-10T15:30:00 A'', remote = ''2026-01-10T15:30:00 B''\<rparr>) = Local
   \<and> fst (resolveByTimestamp exampleDate
          \<lparr>local = ''no time'', remote = ''2026-01-10T15:30:00 B''\<rparr>) = Remote
   \<and> fst (resolveByTimestamp exampleDate
          \<lparr>local = ''2026-01-10T14:00:00 A'', remote = ''no time''\<rparr>) = Local
   \<and> fst (resolveByTimestamp exampleDate \<lparr>local = ''no time'', remote = ''none''\<rparr>) = Local
   \<and> files (snd (resolveFile exampleEnv
          (repoWith ''/home/u/.claude-memory-cloud/notes.md'' conflictTimestamps)
          ''/home/u/.claude-memory-cloud/notes.md'')) ''/home/u/.claude-memory-cloud/notes.md''
       = Some ''**Device**: desk when 2026-01-10T15:30:00 B''"
proof -
  define m1 :: conflict_markers
    where "m1 = \<lparr>local = ''last_updated: 2026-01-10T14:00:00'', remote = ''2026-01-10T15:30:00 B''\<rparr>"
  define m2 :: conflict_markers
    where "m2 = \<lparr>local = ''2026-01-10T15:30:00 A'', remote = ''2026-01-10T15:30:00 B''\<rparr>"
  define m3 :: conflict_markers
    where "m3 = \<lparr>local = ''no time'', remote = ''2026-01-10T15:30:00 B''\<rparr>"
  define m4 :: conflict_markers
    where "m4 = \<lparr>local = ''2026-01-10T14:00:00 A'', remote = ''no time''\<rparr>"
  define m5 :: conflict_markers
    where "m5 = \<lparr>local = ''no time'', remote = ''none''\<rparr>"
  define m6 :: conflict_markers
    where "m6 = \<lparr>local = ''last_updated: 2026-01-10T14:00:00'' @ [nl] @ ''A'',
                  remote = ''**Device**: desk when 2026-01-10T15:30:00 B''\<rparr>"
  define p where "p = ''/home/u/.claude-memory-cloud/notes.md''"
  define st where "st = repoWith p conflictTimestamps"
  define st' where "st' = snd (resolveFile exampleEnv st p)"
  have t1: "extractTimestamp exampleDate ''last_updated: 2026-01-10T14:00:00'' = Some (Date 1768053600000)"
    by code_simp
  have t2: "extractTimestamp exampleDate ''2026-01-10T15:30:00 B'' = Some (Date 1768059000000)"
    by code_simp
  have t3: "extractTimestamp exampleDate ''2026-01-10T15:30:00 A'' = Some (Date 1768059000000)"
    by code_simp
  have t4: "extractTimestamp exampleDate ''2026-01-10T14:00:00 A'' = Some (Date 1768053600000)"
    by code_simp
  have t5: "extractTimestamp exampleDate ''no time'' = None"
    by code_simp
  have t6: "extractTimestamp exampleDate ''none'' = None"
    by code_simp
  have g: "dateGt (Date 1768059000000) (Date 1768053600000)"
    by (simp add: dateGt_def)
  have h1: "extractTimestamp exampleDate (local m1) = Some (Date 1768053600000)
          \<and> extractTimestamp exampleDate (remote m1) = Some (Date 1768059000000)"
    using t1 t2 by (simp add: m1_def)
  have h2: "extractTimestamp exampleDate (local m2) = Some (Date 1768059000000)
          \<and> extractTimestamp exampleDate (remote m2) = Some (Date 1768059000000)"
    using t2 t3 by (simp add: m2_def)
  have h3: "extractTimestamp exampleDate (local m3) = None
          \<and> extractTimestamp exampleDate (remote m3) = Some (Date 1768059000000)"
    using t5 t2 by (simp add: m3_def)
  have h4: "extractTimestamp exampleDate (local m4) = Some (Date 1768053600000)
          \<and> extractTimestamp exampleDate (remote m4) = None"
    using t4 t5 by (simp add: m4_def)
  have h5: "extractTimestamp exampleDate (local m5) = None
          \<and> extractTimestamp exampleDate (remote m5) = None"
    using t5 t6 by (simp add: m5_def)
  have "fst (resolveByTimestamp exampleDate m1)
          = (if dateGt (Date 1768059000000) (Date 1768053600000) then Remote else Local)"
    using resolveByTimestamp_rule [of exampleDate m1 "Date 1768053600000" "Date 1768059000000"] h1
    by blast
  then have 1: "fst (resolveByTimestamp exampleDate m1) = Remote"
    using g by simp
  have 2: "fst (resolveByTimestamp exampleDate m2) = Local"
    using resolveByTimestamp_rule [of exampleDate m2 "Date 1768059000000"] h2 by blast
  have 3: "fst (resolveByTimestamp exampleDate m3) = Remote"
    using resolveByTimestamp_rule [of exampleDate m3 _ "Date 1768059000000"] h3 by blast
  have 4: "fst (resolveByTimestamp exampleDate m4) = Local"
    using resolveByTimestamp_rule [of exampleDate m4 "Date 1768053600000"] h4 by blast
  have 5: "fst (resolveByTimestamp exampleDate m5) = Local"
    using resolveByTimestamp_rule [of exampleDate m5] h5 by blast
  have e: "extractConflict conflictTimestamps = Some m6"
    unfolding m6_def by code_simp
  have w: "fst (resolveByTimestamp (envNewDate exampleEnv) m6) = Remote"
    unfolding m6_def by code_simp
  have n: "\<not> requiresManualResolution (envMemoryDir exampleEnv) p"
    unfolding p_def by code_simp
  have f: "files st p = Some conflictTimestamps"
    by (simp add: st_def repoWith_def emptyRepo_def)
  have "fst (resolveFile exampleEnv st p)"
    unfolding st_def p_def by code_simp
  then have r: "resolveFile exampleEnv st p = (True, st')"
    unfolding st'_def by (cases "resolveFile exampleEnv st p") simp
  have "files st' p = Some (if fst (resolveByTimestamp (envNewDate exampleEnv) m6) = Local
                            then local m6 else remote m6)"
    using resolveByTimestamp_rule [where env = exampleEnv and filePath = p and st = st
        and content = conflictTimestamps and m = m6 and st' = st'] n f e r
    by blast
  then have 6: "files st' p = Some ''**Device**: desk when 2026-01-10T15:30:00 B''"
    unfolding w by (simp add: m6_def)
  from 1 2 3 4 5 6 show ?thesis
    unfolding m1_def m2_def m3_def m4_def m5_def st'_def st_def p_def by blast
qed

text \<open>
  Claim C6. For a file that \<open>requiresManualResolution\<close> accepts, \<open>resolveFile\<close>
  returns \<open>false\<close> and leaves the state as it was: no file content changes, nothing
  is staged, no archive and no log entry is written. Each of the three critical
  files, at its place under \<open>MEMORY_DIR\<close>, is accepted.
\<close>

theorem critical_file_untouched:
  "(requiresManualResolution (envMemoryDir env) filePath
      \<longrightarrow> resolveFile env st filePath = (False, st))
   \<and> (\<forall>name\<in>set MANUAL_RESOLUTION_FILES. requiresManualResolution md (joinPath md name))"
proof (intro conjI impI ballI)
  assume "requiresManualResolution (envMemoryDir env) filePath"
  then show "resolveFile env st filePath = (False, st)"
    by (simp add: resolveFile_def)
next
  fix name assume "name \<in> set MANUAL_RESOLUTION_FILES"
  moreover have "removeFirst (joinPath md name) (md @ ''/'') = name"
    using removeFirst_prefix [of "md @ ''/''" name] by (simp add: joinPath_def)
  ultimately show "requiresManualResolution md (joinPath md name)"
    unfolding requiresManualResolution_def Let_def by (intro bexI [of _ name]) simp_all
qed

text \<open>The theorem at a conflicted device registry.\<close>

theorem critical_file_untouched_witness:
  "resolveFile exampleEnv
      (repoWith ''/home/u/.claude-memory-cloud/sync/device-registry.json'' conflictTimestamps)
      ''/home/u/.claude-memory-cloud/sync/device-registry.json''
     = (False, repoWith ''/home/u/.claude-memory-cloud/sync/device-registry.json'' conflictTimestamps)
   \<and> requiresManualResolution ''/home/u/.claude-memory-cloud''
         ''/home/u/.claude-memory-cloud/sync/device-registry.json''"
proof -
  have r: "requiresManualResolution (envMemoryDir exampleEnv)
             ''/home/u/.claude-memory-cloud/sync/device-registry.json''"
    by code_simp
  have m: "''sync/device-registry.json'' \<in> set MANUAL_RESOLUTION_FILES"
    by (simp add: MANUAL_RESOLUTION_FILES_def)
  from critical_file_untouched [of exampleEnv "''/home/u/.claude-memory-cloud/sync/device-registry.json''"
      "repoWith ''/home/u/.claude-memory-cloud/sync/device-registry.json'' conflictTimestamps"
      "''/home/u/.claude-memory-cloud''"] r m
  show ?thesis by (auto simp: joinPath_def)
qed

text \<open>
  Claim C4 fails on the code. \<open>resolveFile\<close> writes the winning body alone as the new
  content of the file: for a file with text before and after the conflict markers, the
  text around the markers is lost. Here the file holds \<open>intro\<close>, a conflict between
  \<open>local text\<close> and \<open>remote text\<close>, and \<open>outro\<close>; it is resolved (and staged), and
  its content afterwards is \<open>local text\<close>, not \<open>intro\<close>, \<open>local text\<close>, \<open>outro\<close>.
\<close>

theorem resolveFile_drops_surrounding_text:
  "extractConflict conflictInContext = Some \<lparr>local = ''local text'', remote = ''remote text''\<rparr>
   \<and> fst (resolveFile exampleEnv
        (repoWith ''/home/u/.claude-memory-cloud/notes.md'' conflictInContext)
        ''/home/u/.claude-memory-cloud/notes.md'')
   \<and> files (snd (resolveFile exampleEnv
        (repoWith ''/home/u/.claude-memory-cloud/notes.md'' conflictInContext)
        ''/home/u/.claude-memory-cloud/notes.md'')) ''/home/u/.claude-memory-cloud/notes.md''
       = Some ''local text''
   \<and> ''/home/u/.claude-memory-cloud/notes.md''
        \<in> set (staged (snd (resolveFile exampleEnv
              (repoWith ''/home/u/.claude-memory-cloud/notes.md'' conflictInContext)
              ''/home/u/.claude-memory-cloud/notes.md'')))
   \<and> ''local text'' \<noteq> ''intro'' @ [nl] @ ''local text'' @ [nl] @ ''outro'' @ [nl]"
  by code_simp

section \<open>The hooks\<close>

subsection \<open>The pending-push queue\<close>

lemma retryLoop_bounded:
  "list_all (\<lambda>p. 0 \<le> retry_count p \<and> retry_count p \<le> 3) ps \<Longrightarrow>
   list_all (\<lambda>p. 0 \<le> retry_count p \<and> retry_count p \<le> 3) (fst (retryLoop f now k ps))"
  by (induction ps arbitrary: k) (auto simp: case_prod_unfold Let_def split: sum.splits)

lemma retryLoop_attempts:
  "snd (retryLoop f now k ps) = k + length (filter (\<lambda>p. retry_count p < 3) ps)"
  by (induction ps arbitrary: k) (auto simp: case_prod_unfold Let_def split: sum.splits)

lemma retryLoop_keeps:
  "p \<in> set ps \<Longrightarrow> 3 \<le> retry_count p \<Longrightarrow> p \<in> set (fst (retryLoop f now k ps))"
  by (induction ps arbitrary: k) (auto simp: case_prod_unfold Let_def split: sum.splits)

lemma retryLoop_step:
  "p' \<in> set (fst (retryLoop f now k ps)) \<Longrightarrow>
   \<exists>p\<in>set ps. commit_hash p' = commit_hash p \<and> timestamp p' = timestamp p
      \<and> retry_count p \<le> retry_count p' \<and> retry_count p' \<le> retry_count p + 1"
proof (induction ps arbitrary: k)
  case Nil
  then show ?case by simp
next
  case (Cons a ps)
  show ?case
  proof (cases "3 \<le> retry_count a")
    case True
    with Cons.prems have "p' = a \<or> p' \<in> set (fst (retryLoop f now k ps))"
      by (auto simp: case_prod_unfold Let_def)
    then show ?thesis using Cons.IH by auto
  next
    case False
    show ?thesis
    proof (cases "f k")
      case (Inr out)
      with False Cons.prems have "p' \<in> set (fst (retryLoop f now (Suc k) ps))" by simp
      then show ?thesis using Cons.IH by auto
    next
      case (Inl e)
      with False Cons.prems
      have "p' = a\<lparr>retry_count := retry_count a + 1, last_retry := Some now,
                    error := Some (errMessage e)\<rparr>
            \<or> p' \<in> set (fst (retryLoop f now (Suc k) ps))"
        by (auto simp: case_prod_unfold Let_def)
      then show ?thesis using Cons.IH by auto
    qed
  qed
qed

lemma queuePendingPush_bounded:
  "queueBounded q \<Longrightarrow> queueBounded (fst (queuePendingPush h e now q))"
  by (cases q) (simp_all add: queueBounded_def queuePendingPush_def)

lemma retryPendingPushes_queue:
  "queue st = Parsed ps \<Longrightarrow> ps \<noteq> [] \<Longrightarrow>
   queue (retryPendingPushes env st)
     = Parsed (fst (retryLoop (retryPushResult env) (startNow env) 0 ps))"
  by (simp add: retryPendingPushes_def case_prod_unfold Let_def)

lemma retryPendingPushes_bounded:
  "queueBounded (queue st) \<Longrightarrow> queueBounded (queue (retryPendingPushes env st))"
proof (cases "queue st")
  case (Parsed ps)
  assume b: "queueBounded (queue st)"
  show ?thesis
  proof (cases "ps = []")
    case True
    with Parsed b show ?thesis by (simp add: retryPendingPushes_def)
  next
    case False
    from b Parsed have "list_all (\<lambda>p. 0 \<le> retry_count p \<and> retry_count p \<le> 3) ps"
      by (simp add: queueBounded_def)
    then have "list_all (\<lambda>p. 0 \<le> retry_count p \<and> retry_count p \<le> 3)
                 (fst (retryLoop (retryPushResult env) (startNow env) 0 ps))"
      by (rule retryLoop_bounded)
    then show ?thesis
      unfolding retryPendingPushes_queue [OF Parsed False] by (simp add: queueBounded_def)
  qed
qed (simp_all add: retryPendingPushes_def)

lemma storedQueue_bounded: "storedQueue q \<Longrightarrow> queueBounded q"
proof (induction rule: storedQueue.induct)
  case initial
  show ?case by (simp add: queueBounded_def)
next
  case (enqueue q commitHash err now)
  then show ?case by (simp add: queuePendingPush_bounded)
next
  case (drain st env)
  then show ?case by (simp add: retryPendingPushes_bounded)
qed

text \<open>
  Claim C7. Every entry of a queue file that the hooks can leave behind has a retry
  count from 0 to 3. \<open>queuePendingPush\<close> appends an entry with retry count 0 (to a
  file that is missing or holds an array). \<open>retryPendingPushes\<close> rewrites the file with
  the result of its loop, which attempts one push for each entry with a retry count
  below 3 and none for the others, so at most one per entry; every entry it keeps comes
  from an entry of the queue with the retry count unchanged or one higher; and every
  entry whose retry count has reached 3 is kept as it is.
\<close>

theorem queue_bound:
  "(storedQueue (Parsed ps) \<and> p \<in> set ps \<longrightarrow> 0 \<le> retry_count p \<and> retry_count p \<le> 3)
   \<and> (q \<noteq> Malformed \<longrightarrow>
        (\<exists>ps'. fst (queuePendingPush h e now q)
                  = Parsed (ps' @ [\<lparr>timestamp = now, commit_hash = h, retry_count = 0,
                                     error = Some e, last_retry = None\<rparr>])))
   \<and> (queue st = Parsed ps \<and> ps \<noteq> [] \<longrightarrow>
        queue (retryPendingPushes env st)
          = Parsed (fst (retryLoop (retryPushResult env) (startNow env) 0 ps)))
   \<and> snd (retryLoop f now 0 ps) = length (filter (\<lambda>p. retry_count p < 3) ps)
   \<and> snd (retryLoop f now 0 ps) \<le> length ps
   \<and> (p' \<in> set (fst (retryLoop f now 0 ps)) \<longrightarrow>
        (\<exists>p\<in>set ps. commit_hash p' = commit_hash p \<and> timestamp p' = timestamp p
            \<and> retry_count p \<le> retry_count p' \<and> retry_count p' \<le> retry_count p + 1))
   \<and> (p \<in> set ps \<and> 3 \<le> retry_count p \<longrightarrow> p \<in> set (fst (retryLoop f now 0 ps)))"
proof (intro conjI impI)
  assume "storedQueue (Parsed ps) \<and> p \<in> set ps"
  then have "queueBounded (Parsed ps)" and "p \<in> set ps"
    using storedQueue_bounded by blast+
  then show "0 \<le> retry_count p" and "retry_count p \<le> 3"
    by (simp_all add: queueBounded_def list_all_iff)
next
  assume "q \<noteq> Malformed"
  then show "\<exists>ps'. fst (queuePendingPush h e now q)
                  = Parsed (ps' @ [\<lparr>timestamp = now, commit_hash = h, retry_count = 0,
                                     error = Some e, last_retry = None\<rparr>])"
    by (cases q) (simp_all add: queuePendingPush_def)
next
  assume "queue st = Parsed ps \<and> ps \<noteq> []"
  then show "queue (retryPendingPushes env st)
          = Parsed (fst (retryLoop (retryPushResult env) (startNow env) 0 ps))"
    by (simp add: retryPendingPushes_queue)
next
  show "snd (retryLoop f now 0 ps) = length (filter (\<lambda>p. retry_count p < 3) ps)"
    by (simp add: retryLoop_attempts)
next
  show "snd (retryLoop f now 0 ps) \<le> length ps"
    by (simp add: retryLoop_attempts)
next
  assume "p' \<in> set (fst (retryLoop f now 0 ps))"
  then show "\<exists>p\<in>set ps. commit_hash p' = commit_hash p \<and> timestamp p' = timestamp p
            \<and> retry_count p \<le> retry_count p' \<and> retry_count p' \<le> retry_count p + 1"
    by (rule retryLoop_step)
next
  assume "p \<in> set ps \<and> 3 \<le> retry_count p"
  then show "p \<in> set (fst (retryLoop f now 0 ps))"
    by (simp add: retryLoop_keeps)
qed

text \<open>
  The theorem at the queue that one failed push and one failed retry leave behind, and
  at an entry that has reached the cap.
\<close>

theorem queue_bound_witness:
  "0 \<le> retry_count (queuedEntry\<lparr>retry_count := 1, last_retry := Some ''2026-01-11T09:00:00.000Z'',
                                  error := Some ''Command failed: git push --quiet''\<rparr>)
   \<and> retry_count (queuedEntry\<lparr>retry_count := 1, last_retry := Some ''2026-01-11T09:00:00.000Z'',
                                error := Some ''Command failed: git push --quiet''\<rparr>) \<le> 3
   \<and> queue (retryPendingPushes offlineStart (emptyState\<lparr>queue := Parsed [queuedEntry]\<rparr>))
       = Parsed [queuedEntry\<lparr>retry_count := 1, last_retry := Some ''2026-01-11T09:00:00.000Z'',
                              error := Some ''Command failed: git push --quiet''\<rparr>]
   \<and> queuedEntry\<lparr>retry_count := 3\<rparr>
       \<in> set (fst (retryLoop (\<lambda>k. Inl networkError) ''2026-01-11T09:00:00.000Z'' 0
                    [queuedEntry\<lparr>retry_count := 3\<rparr>]))"
proof -
  define e1 where "e1 = queuedEntry\<lparr>retry_count := 1, last_retry := Some ''2026-01-11T09:00:00.000Z'',
                                  error := Some ''Command failed: git push --quiet''\<rparr>"
  define st where "st = emptyState\<lparr>queue := Parsed [queuedEntry]\<rparr>"
  have "storedQueue (fst (queuePendingPush ''0f3a9c2'' ''Command failed: git push --quiet''
                            ''2026-01-10T18:00:00.000Z'' Missing))"
    by (rule storedQueue.enqueue [OF storedQueue.initial])
  then have s0: "storedQueue (queue st)"
    by (simp add: queuePendingPush_def queuedEntry_def st_def)
  have q: "queue st = Parsed [queuedEntry] \<and> [queuedEntry] \<noteq> []"
    by (simp add: st_def)
  have l: "fst (retryLoop (retryPushResult offlineStart) (startNow offlineStart) 0 [queuedEntry]) = [e1]"
    by (simp add: offlineStart_def networkError_def queuedEntry_def e1_def)
  from queue_bound [where st = st and ps = "[queuedEntry]" and env = offlineStart] q
  have d: "queue (retryPendingPushes offlineStart st) = Parsed [e1]"
    unfolding l by blast
  from storedQueue.drain [OF s0, of offlineStart] d have s1: "storedQueue (Parsed [e1])"
    by simp
  have "storedQueue (Parsed [e1]) \<and> e1 \<in> set [e1]"
    using s1 by simp
  with queue_bound [where ps = "[e1]" and p = e1]
  have b: "0 \<le> retry_count e1 \<and> retry_count e1 \<le> 3"
    by blast
  have "queuedEntry\<lparr>retry_count := 3\<rparr> \<in> set [queuedEntry\<lparr>retry_count := 3\<rparr>]
        \<and> 3 \<le> retry_count (queuedEntry\<lparr>retry_count := 3\<rparr>)"
    by simp
  with queue_bound [where ps = "[queuedEntry\<lparr>retry_count := 3\<rparr>]"
      and p = "queuedEntry\<lparr>retry_count := 3\<rparr>"
      and f = "\<lambda>k. Inl networkError" and now = "''2026-01-11T09:00:00.000Z''"]
  have k: "queuedEntry\<lparr>retry_count := 3\<rparr>
       \<in> set (fst (retryLoop (\<lambda>k. Inl networkError) ''2026-01-11T09:00:00.000Z'' 0
                    [queuedEntry\<lparr>retry_count := 3\<rparr>]))"
    by blast
  from b d k show ?thesis
    unfolding e1_def st_def by blast
qed

subsection \<open>Session start\<close>

text \<open>
  Claim C5. On a pull that succeeds and leaves conflict markers in the working copy,
  the session-start hook is to invoke the conflict resolver on each conflicted file
  and then drain the queue and update the registry; the pack's README lists
  "Auto-resolve via timestamp" among the steps of \<open>SessionStart.ts\<close>, and test 4.1 of
  \<open>VERIFY.md\<close> expects "Hook resolves automatically". The hook does not: at a session
  start with \<open>notes.md\<close> conflicted (\<open>git status --short\<close> prints \<open>UU notes.md\<close>), it
  runs the pull and the status query, drains the queue and updates the registry, and
  nothing else; the file keeps its conflict markers and nothing is staged, archived or
  logged, although \<open>resolveFile\<close>, applied to that file, resolves it (the remote body is
  the newer one) and stages it.
\<close>

theorem session_start_leaves_conflict:
  "fst (main_SessionStart conflictStart conflictState) = 0
   \<and> trace (snd (main_SessionStart conflictStart conflictState))
     = [GitPull, GitStatus, GitPush, WriteQueue, WriteRegistry]
   \<and> queue (snd (main_SessionStart conflictStart conflictState)) = Parsed []
   \<and> files (worktree (snd (main_SessionStart conflictStart conflictState)))
        ''/home/u/.claude-memory-cloud/notes.md'' = Some conflictTimestamps
   \<and> extractConflict conflictTimestamps
       = Some \<lparr>local = ''last_updated: 2026-01-10T14:00:00'' @ [nl] @ ''A'',
               remote = ''**Device**: desk when 2026-01-10T15:30:00 B''\<rparr>
   \<and> staged (worktree (snd (main_SessionStart conflictStart conflictState))) = []
   \<and> archive (worktree (snd (main_SessionStart conflictStart conflictState))) = []
   \<and> resolutionLog (worktree (snd (main_SessionStart conflictStart conflictState))) = []
   \<and> fst (resolveFile exampleEnv (worktree conflictState) ''/home/u/.claude-memory-cloud/notes.md'')
   \<and> files (snd (resolveFile exampleEnv (worktree conflictState)
                   ''/home/u/.claude-memory-cloud/notes.md''))
        ''/home/u/.claude-memory-cloud/notes.md''
       = Some ''**Device**: desk when 2026-01-10T15:30:00 B''
   \<and> staged (snd (resolveFile exampleEnv (worktree conflictState)
                   ''/home/u/.claude-memory-cloud/notes.md''))
       = [''/home/u/.claude-memory-cloud/notes.md'']"
  by code_simp

subsection \<open>Session end\<close>

text \<open>
  Claim C1. When \<open>redact_pii\<close> is enabled and the redaction script exists and exits
  with an error, a run of the session-end hook does nothing but run that script: it
  creates no commit, attempts no push, writes no queue entry (the queue is unchanged),
  and exits with status 0. When the run reaches the redaction step, the script is its
  only action.
\<close>

theorem redaction_failure_aborts:
  "endConfig env = Some c \<and> privacy c = Some pr \<and> redact_pii pr
     \<and> scriptExists env \<and> scriptResult env = Inl e
   \<longrightarrow> fst (main_SessionEnd env st) = 0
     \<and> set (ranActions st (snd (main_SessionEnd env st))) \<subseteq> {RunRedaction}
     \<and> GitCommit \<notin> set (ranActions st (snd (main_SessionEnd env st)))
     \<and> GitPush \<notin> set (ranActions st (snd (main_SessionEnd env st)))
     \<and> WriteQueue \<notin> set (ranActions st (snd (main_SessionEnd env st)))
     \<and> queue (snd (main_SessionEnd env st)) = queue st
     \<and> (endStdinOk env \<and> sync_enabled c \<and> sync c = Some sc \<and> on_session_end sc
          \<and> endDirExists env
        \<longrightarrow> ranActions st (snd (main_SessionEnd env st)) = [RunRedaction])"
proof (intro impI)
  assume a: "endConfig env = Some c \<and> privacy c = Some pr \<and> redact_pii pr
     \<and> scriptExists env \<and> scriptResult env = Inl e"
  then have r: "runRedactPII env = (False, [RunRedaction])"
    by (simp add: runRedactPII_def)
  have m: "main_SessionEnd env st = (0, st) \<or>
           main_SessionEnd env st = (0, st\<lparr>trace := trace st @ [RunRedaction]\<rparr>)"
    using a r by (auto simp: main_SessionEnd_def split: option.splits)
  have m': "main_SessionEnd env st = (0, st\<lparr>trace := trace st @ [RunRedaction]\<rparr>)"
    if "endStdinOk env \<and> sync_enabled c \<and> sync c = Some sc \<and> on_session_end sc \<and> endDirExists env"
    using a r that by (auto simp: main_SessionEnd_def)
  have c7: "endStdinOk env \<and> sync_enabled c \<and> sync c = Some sc \<and> on_session_end sc
          \<and> endDirExists env
        \<longrightarrow> ranActions st (snd (main_SessionEnd env st)) = [RunRedaction]"
    using m' by (simp add: ranActions_def)
  from m have c16: "fst (main_SessionEnd env st) = 0
     \<and> set (ranActions st (snd (main_SessionEnd env st))) \<subseteq> {RunRedaction}
     \<and> GitCommit \<notin> set (ranActions st (snd (main_SessionEnd env st)))
     \<and> GitPush \<notin> set (ranActions st (snd (main_SessionEnd env st)))
     \<and> WriteQueue \<notin> set (ranActions st (snd (main_SessionEnd env st)))
     \<and> queue (snd (main_SessionEnd env st)) = queue st"
    by (auto simp: ranActions_def)
  from c16 c7 show "fst (main_SessionEnd env st) = 0
     \<and> set (ranActions st (snd (main_SessionEnd env st))) \<subseteq> {RunRedaction}
     \<and> GitCommit \<notin> set (ranActions st (snd (main_SessionEnd env st)))
     \<and> GitPush \<notin> set (ranActions st (snd (main_SessionEnd env st)))
     \<and> WriteQueue \<notin> set (ranActions st (snd (main_SessionEnd env st)))
     \<and> queue (snd (main_SessionEnd env st)) = queue st
     \<and> (endStdinOk env \<and> sync_enabled c \<and> sync c = Some sc \<and> on_session_end sc
          \<and> endDirExists env
        \<longrightarrow> ranActions st (snd (main_SessionEnd env st)) = [RunRedaction])"
    by blast
qed

text \<open>
  The theorem at a run whose redaction script fails.
\<close>

theorem redaction_failure_aborts_witness:
  "fst (main_SessionEnd redactionFailsEnd emptyState) = 0
   \<and> ranActions emptyState (snd (main_SessionEnd redactionFailsEnd emptyState)) = [RunRedaction]
   \<and> GitCommit \<notin> set (ranActions emptyState (snd (main_SessionEnd redactionFailsEnd emptyState)))
   \<and> GitPush \<notin> set (ranActions emptyState (snd (main_SessionEnd redactionFailsEnd emptyState)))
   \<and> queue (snd (main_SessionEnd redactionFailsEnd emptyState)) = queue emptyState"
proof -
  have h: "endConfig redactionFailsEnd = Some cfgOn \<and> privacy cfgOn = Some \<lparr>redact_pii = True\<rparr>
      \<and> redact_pii \<lparr>redact_pii = True\<rparr>
      \<and> scriptExists redactionFailsEnd \<and> scriptResult redactionFailsEnd = Inl networkError"
    by (simp add: redactionFailsEnd_def pushFailsEnd_def cfgOn_def)
  have r: "endStdinOk redactionFailsEnd \<and> sync_enabled cfgOn
      \<and> sync cfgOn = Some \<lparr>on_session_start = True, on_session_end = True\<rparr>
      \<and> on_session_end \<lparr>on_session_start = True, on_session_end = True\<rparr>
      \<and> endDirExists redactionFailsEnd"
    by (simp add: redactionFailsEnd_def pushFailsEnd_def cfgOn_def)
  from redaction_failure_aborts [of redactionFailsEnd cfgOn "\<lparr>redact_pii = True\<rparr>" networkError
      emptyState "\<lparr>on_session_start = True, on_session_end = True\<rparr>"] h r
  show ?thesis by blast
qed

lemma commitAndPush_trace:
  "\<exists>acts. trace (snd (commitAndPush env s)) = trace s @ acts
        \<and> queue (snd (commitAndPush env s)) = queue (snd (commitAndPush env (s\<lparr>trace := t\<rparr>)))"
  by (auto simp: commitAndPush_def createCommit_def pushToCloud_def queuePendingPush_def
        case_prod_unfold Let_def split: sum.splits option.splits json_file.splits)

lemma commitAndPush_push_failed:
  assumes "GitPush \<in> set (ranActions s (snd (commitAndPush env s)))"
    and "pushResult env = Inl e"
  shows "\<exists>h. revParseResult env = Inr h \<and> trim h \<noteq> []
           \<and> fst (commitAndPush env s) = 0
           \<and> GitCommit \<in> set (ranActions s (snd (commitAndPush env s)))
           \<and> queue (snd (commitAndPush env s))
               = fst (queuePendingPush (trim h) (errorOrUnknown (Some (errMessage e)))
                        (endNow env) (queue s))"
  using assms
  by (auto simp: commitAndPush_def createCommit_def pushToCloud_def ranActions_def
        case_prod_unfold Let_def split: sum.splits option.splits if_splits)

lemma main_SessionEnd_cases:
  "main_SessionEnd env st = (0, st)
   \<or> main_SessionEnd env st = (0, st\<lparr>trace := trace st @ [RunRedaction]\<rparr>)
   \<or> main_SessionEnd env st = commitAndPush env st
   \<or> main_SessionEnd env st = commitAndPush env (st\<lparr>trace := trace st @ [RunRedaction]\<rparr>)"
  by (auto simp: main_SessionEnd_def runRedactPII_def split: option.splits sum.splits)

lemma main_SessionEnd_push_failed:
  assumes g: "GitPush \<in> set (ranActions st (snd (main_SessionEnd env st)))"
    and e: "pushResult env = Inl e"
  shows "\<exists>h. revParseResult env = Inr h \<and> trim h \<noteq> []
           \<and> fst (main_SessionEnd env st) = 0
           \<and> GitCommit \<in> set (ranActions st (snd (main_SessionEnd env st)))
           \<and> queue (snd (main_SessionEnd env st))
               = fst (queuePendingPush (trim h) (errorOrUnknown (Some (errMessage e)))
                        (endNow env) (queue st))"
proof -
  define st1 where "st1 = st\<lparr>trace := trace st @ [RunRedaction]\<rparr>"
  from main_SessionEnd_cases [of env st]
  consider "main_SessionEnd env st = (0, st)"
    | "main_SessionEnd env st = (0, st1)"
    | "main_SessionEnd env st = commitAndPush env st"
    | "main_SessionEnd env st = commitAndPush env st1"
    unfolding st1_def by blast
  then show ?thesis
  proof cases
    case 1
    with g show ?thesis by (simp add: ranActions_def)
  next
    case 2
    with g show ?thesis by (simp add: ranActions_def st1_def)
  next
    case 3
    with g have "GitPush \<in> set (ranActions st (snd (commitAndPush env st)))" by simp
    from commitAndPush_push_failed [OF this e] 3 show ?thesis by simp
  next
    case 4
    from commitAndPush_trace [of env st1] obtain acts
      where t: "trace (snd (commitAndPush env st1)) = trace st1 @ acts" by blast
    then have r1: "ranActions st1 (snd (commitAndPush env st1)) = acts"
      by (simp add: ranActions_def)
    from t have r: "ranActions st (snd (commitAndPush env st1)) = RunRedaction # acts"
      by (simp add: ranActions_def st1_def)
    from g 4 r have "GitPush \<in> set acts" by simp
    with r1 have "GitPush \<in> set (ranActions st1 (snd (commitAndPush env st1)))" by simp
    from commitAndPush_push_failed [OF this e] obtain h
      where h: "revParseResult env = Inr h" "trim h \<noteq> []" "fst (commitAndPush env st1) = 0"
        "GitCommit \<in> set (ranActions st1 (snd (commitAndPush env st1)))"
        "queue (snd (commitAndPush env st1))
               = fst (queuePendingPush (trim h) (errorOrUnknown (Some (errMessage e)))
                        (endNow env) (queue st1))"
      by blast
    from h(4) r r1 have "GitCommit \<in> set (ranActions st (snd (commitAndPush env st1)))"
      by simp
    moreover have "queue st1 = queue st" by (simp add: st1_def)
    ultimately show ?thesis using h 4 by auto
  qed
qed

text \<open>
  Claim C8, as amended. When a run of the session-end hook attempts a push (so it has
  created a commit and read its hash) and the push fails, the hook exits with status
  0, and: if the queue file is missing, it is created with one record; if it holds an
  array, one record is appended; the record carries the commit hash, retry count 0, the
  message of the push error (\<open>Unknown error\<close> for an empty message) and the time of
  the run. If the queue file does not parse to an array, it is left as it is.
\<close>

theorem push_failure_enqueues:
  "GitPush \<in> set (ranActions st (snd (main_SessionEnd env st))) \<and> pushResult env = Inl e
   \<longrightarrow> fst (main_SessionEnd env st) = 0
     \<and> GitCommit \<in> set (ranActions st (snd (main_SessionEnd env st)))
     \<and> (\<exists>h. revParseResult env = Inr h \<and> trim h \<noteq> []
          \<and> (queue st = Missing \<longrightarrow>
                queue (snd (main_SessionEnd env st))
                  = Parsed [\<lparr>timestamp = endNow env, commit_hash = trim h, retry_count = 0,
                             error = Some (if errMessage e = [] then ''Unknown error''
                                           else errMessage e),
                             last_retry = None\<rparr>])
          \<and> (\<forall>ps. queue st = Parsed ps \<longrightarrow>
                queue (snd (main_SessionEnd env st))
                  = Parsed (ps @ [\<lparr>timestamp = endNow env, commit_hash = trim h, retry_count = 0,
                                   error = Some (if errMessage e = [] then ''Unknown error''
                                                 else errMessage e),
                                   last_retry = None\<rparr>]))
          \<and> (queue st = Malformed \<longrightarrow> queue (snd (main_SessionEnd env st)) = Malformed))"
proof (intro impI)
  assume "GitPush \<in> set (ranActions st (snd (main_SessionEnd env st))) \<and> pushResult env = Inl e"
  then have "GitPush \<in> set (ranActions st (snd (main_SessionEnd env st)))"
    and "pushResult env = Inl e" by blast+
  from main_SessionEnd_push_failed [OF this] obtain h
    where h: "revParseResult env = Inr h" "trim h \<noteq> []" "fst (main_SessionEnd env st) = 0"
      "GitCommit \<in> set (ranActions st (snd (main_SessionEnd env st)))"
      and q: "queue (snd (main_SessionEnd env st))
               = fst (queuePendingPush (trim h) (errorOrUnknown (Some (errMessage e)))
                        (endNow env) (queue st))"
    by blast
  have "(queue st = Missing \<longrightarrow>
                queue (snd (main_SessionEnd env st))
                  = Parsed [\<lparr>timestamp = endNow env, commit_hash = trim h, retry_count = 0,
                             error = Some (if errMessage e = [] then ''Unknown error''
                                           else errMessage e),
                             last_retry = None\<rparr>])
          \<and> (\<forall>ps. queue st = Parsed ps \<longrightarrow>
                queue (snd (main_SessionEnd env st))
                  = Parsed (ps @ [\<lparr>timestamp = endNow env, commit_hash = trim h, retry_count = 0,
                                   error = Some (if errMessage e = [] then ''Unknown error''
                                                 else errMessage e),
                                   last_retry = None\<rparr>]))
          \<and> (queue st = Malformed \<longrightarrow> queue (snd (main_SessionEnd env st)) = Malformed)"
    unfolding q by (simp add: queuePendingPush_def errorOrUnknown_def)
  with h show "fst (main_SessionEnd env st) = 0
     \<and> GitCommit \<in> set (ranActions st (snd (main_SessionEnd env st)))
     \<and> (\<exists>h. revParseResult env = Inr h \<and> trim h \<noteq> []
          \<and> (queue st = Missing \<longrightarrow>
                queue (snd (main_SessionEnd env st))
                  = Parsed [\<lparr>timestamp = endNow env, commit_hash = trim h, retry_count = 0,
                             error = Some (if errMessage e = [] then ''Unknown error''
                                           else errMessage e),
                             last_retry = None\<rparr>])
          \<and> (\<forall>ps. queue st = Parsed ps \<longrightarrow>
                queue (snd (main_SessionEnd env st))
                  = Parsed (ps @ [\<lparr>timestamp = endNow env, commit_hash = trim h, retry_count = 0,
                                   error = Some (if errMessage e = [] then ''Unknown error''
                                                 else errMessage e),
                                   last_retry = None\<rparr>]))
          \<and> (queue st = Malformed \<longrightarrow> queue (snd (main_SessionEnd env st)) = Malformed))"
    by blast
qed

text \<open>
  The theorem at a run whose push fails, with no queue file yet.
\<close>

theorem push_failure_enqueues_witness:
  "fst (main_SessionEnd pushFailsEnd emptyState) = 0
   \<and> GitCommit \<in> set (ranActions emptyState (snd (main_SessionEnd pushFailsEnd emptyState)))
   \<and> queue (snd (main_SessionEnd pushFailsEnd emptyState))
       = Parsed [\<lparr>timestamp = ''2026-01-10T18:00:00.000Z'', commit_hash = ''0f3a9c2'',
                  retry_count = 0, error = Some ''Command failed: git push --quiet'',
                  last_retry = None\<rparr>]"
proof -
  have g: "GitPush \<in> set (ranActions emptyState (snd (main_SessionEnd pushFailsEnd emptyState)))
           \<and> pushResult pushFailsEnd = Inl networkError"
    by code_simp
  have t: "trim (''0f3a9c2'' @ [nl]) = ''0f3a9c2''"
    by code_simp
  have r: "revParseResult pushFailsEnd = Inr (''0f3a9c2'' @ [nl])" "endNow pushFailsEnd = ''2026-01-10T18:00:00.000Z''"
    "errMessage networkError = ''Command failed: git push --quiet''" "queue emptyState = Missing"
    by (simp_all add: pushFailsEnd_def networkError_def emptyState_def)
  from push_failure_enqueues [of emptyState pushFailsEnd networkError] g
  have c: "fst (main_SessionEnd pushFailsEnd emptyState) = 0
     \<and> GitCommit \<in> set (ranActions emptyState (snd (main_SessionEnd pushFailsEnd emptyState)))"
    and "\<exists>h. revParseResult pushFailsEnd = Inr h \<and> trim h \<noteq> []
          \<and> (queue emptyState = Missing \<longrightarrow>
                queue (snd (main_SessionEnd pushFailsEnd emptyState))
                  = Parsed [\<lparr>timestamp = endNow pushFailsEnd, commit_hash = trim h, retry_count = 0,
                             error = Some (if errMessage networkError = [] then ''Unknown error''
                                           else errMessage networkError),
                             last_retry = None\<rparr>])"
    by blast+
  then obtain h where h: "revParseResult pushFailsEnd = Inr h"
    and q: "queue emptyState = Missing \<longrightarrow>
                queue (snd (main_SessionEnd pushFailsEnd emptyState))
                  = Parsed [\<lparr>timestamp = endNow pushFailsEnd, commit_hash = trim h, retry_count = 0,
                             error = Some (if errMessage networkError = [] then ''Unknown error''
                                           else errMessage networkError),
                             last_retry = None\<rparr>]"
    by blast
  from h r(1) have hh: "h = ''0f3a9c2'' @ [nl]" by simp
  from q r(4) have "queue (snd (main_SessionEnd pushFailsEnd emptyState))
                  = Parsed [\<lparr>timestamp = endNow pushFailsEnd, commit_hash = trim h, retry_count = 0,
                             error = Some (if errMessage networkError = [] then ''Unknown error''
                                           else errMessage networkError),
                             last_retry = None\<rparr>]"
    by blast
  then have "queue (snd (main_SessionEnd pushFailsEnd emptyState))
       = Parsed [\<lparr>timestamp = ''2026-01-10T18:00:00.000Z'', commit_hash = ''0f3a9c2'',
                  retry_count = 0, error = Some ''Command failed: git push --quiet'',
                  last_retry = None\<rparr>]"
    unfolding hh t r(2) r(3) by simp
  with c show ?thesis by blast
qed

text \<open>
  Claim C8 as stated fails: when the queue file does not parse, the run creates a
  commit, the push fails, and no record is appended; the file is not written.
\<close>

theorem push_failure_enqueues_counterexample:
  "GitCommit \<in> set (trace (snd (main_SessionEnd pushFailsEnd (emptyState\<lparr>queue := Malformed\<rparr>))))
   \<and> GitPush \<in> set (trace (snd (main_SessionEnd pushFailsEnd (emptyState\<lparr>queue := Malformed\<rparr>))))
   \<and> pushResult pushFailsEnd = Inl networkError
   \<and> fst (main_SessionEnd pushFailsEnd (emptyState\<lparr>queue := Malformed\<rparr>)) = 0
   \<and> queue (snd (main_SessionEnd pushFailsEnd (emptyState\<lparr>queue := Malformed\<rparr>))) = Malformed
   \<and> trace (snd (main_SessionEnd pushFailsEnd (emptyState\<lparr>queue := Malformed\<rparr>)))
       = [RunRedaction, GitStatus, GitAdd, GitCommit, GitRevParse, GitPush, AppendDailyLog]"
  by code_simp

end
